theory Spec2Isabelle
  imports Complex_Main "HOL-Library.AList"
begin

section \<open>The bookmark chunker (src/utils/chunker.py)\<close>

text \<open>
  The chunker works on the tree that the markup library hands back for the bookmark
  file.  The library itself (parsing and printing of markup) is an external
  collaborator; the tree it returns is the input of the model.  A node is either a
  tag with a lower-case name and its children in document order, or a piece of text.
\<close>

datatype node = Tag string "node list" | NavigableString string

fun children :: "node \<Rightarrow> node list" where
  "children (Tag nm cs) = cs"
| "children (NavigableString s) = []"

fun is_named :: "string \<Rightarrow> node \<Rightarrow> bool" where
  "is_named nm (Tag nm' cs) = (nm' = nm)"
| "is_named nm (NavigableString s) = False"

text \<open>All nodes strictly below a node, in document order (pre-order).\<close>

fun descendants :: "node \<Rightarrow> node list" where
  "descendants (Tag nm cs) = concat (map (\<lambda>c. c # descendants c) cs)"
| "descendants (NavigableString s) = []"

text \<open>\<^verbatim>\<open>tag.find_all(name, recursive=True)\<close> and \<^verbatim>\<open>tag.find(name)\<close>.\<close>

definition find_all :: "string \<Rightarrow> node \<Rightarrow> node list" where
  "find_all nm t = filter (is_named nm) (descendants t)"

definition find_tag :: "string \<Rightarrow> node \<Rightarrow> node option" where
  "find_tag nm t = (case find_all nm t of [] \<Rightarrow> None | x # xs \<Rightarrow> Some x)"

record BookmarkChunker =
  max_bookmarks_per_chunk :: int

text \<open>\<^verbatim>\<open>__init__\<close> stores its argument and checks nothing.\<close>

definition BookmarkChunker_init :: "int \<Rightarrow> BookmarkChunker" where
  "BookmarkChunker_init k = \<lparr>max_bookmarks_per_chunk = k\<rparr>"

text \<open>\<^verbatim>\<open>is_bookmark = dt.find("a") is not None\<close>: the search is over all descendants.\<close>

definition is_bookmark :: "node \<Rightarrow> bool" where
  "is_bookmark dt = (find_tag ''a'' dt \<noteq> None)"

text \<open>
  The tree of the fixed document that \<^verbatim>\<open>_create_chunk_html\<close> parses before it
  appends the elements of the chunk: a doctype, META, TITLE, H1 and a DL holding one
  unclosed P.  The library keeps a run of white space between tags that holds a line
  break as the single character newline.
\<close>

definition boilerplate_head :: "node list" where
  "boilerplate_head =
     [NavigableString ''NETSCAPE-Bookmark-file-1'',
      NavigableString [CHR 0x0A],
      Tag ''meta'' [],
      NavigableString [CHR 0x0A],
      Tag ''title'' [NavigableString ''Bookmarks''],
      NavigableString [CHR 0x0A],
      Tag ''h1'' [NavigableString ''Bookmarks''],
      NavigableString [CHR 0x0A]]"

definition boilerplate_dl_contents :: "node list" where
  "boilerplate_dl_contents = [Tag ''p'' [NavigableString [CHR 0x0A]]]"

text \<open>
  \<^verbatim>\<open>_create_chunk_html\<close>: every element is copied (printed and parsed again, which
  gives back an equal tree) and appended to the DL of the fixed document.  The
  result is kept as a tree; printing it is the library's work.
\<close>

definition create_chunk_html :: "node list \<Rightarrow> node" where
  "create_chunk_html dt_elements =
     Tag ''[document]''
       (boilerplate_head @ [Tag ''dl'' (boilerplate_dl_contents @ dt_elements)])"

text \<open>
  The loop of \<^verbatim>\<open>chunk_content\<close> over \<^verbatim>\<open>all_dt\<close>, with the two loop variables
  \<^verbatim>\<open>current_chunk_dts\<close> and \<^verbatim>\<open>current_bookmark_count\<close>; the result is the
  sequence of yielded documents.
\<close>

fun chunk_loop :: "int \<Rightarrow> node list \<Rightarrow> node list \<Rightarrow> int \<Rightarrow> node list" where
  "chunk_loop k [] current_chunk_dts current_bookmark_count =
     (if current_chunk_dts \<noteq> [] then [create_chunk_html current_chunk_dts] else [])"
| "chunk_loop k (dt # all_dt) current_chunk_dts current_bookmark_count =
     (let cnt = (if is_bookmark dt then current_bookmark_count + 1
                 else current_bookmark_count);
          cur = current_chunk_dts @ [dt]
      in if cnt \<ge> k
         then create_chunk_html cur # chunk_loop k all_dt [] 0
         else chunk_loop k all_dt cur cnt)"

definition chunk_content :: "BookmarkChunker \<Rightarrow> node \<Rightarrow> node list" where
  "chunk_content self soup =
     (case find_tag ''dl'' soup of
        None \<Rightarrow> []
      | Some root_dl \<Rightarrow>
          chunk_loop (max_bookmarks_per_chunk self) (find_all ''dt'' root_dl) [] 0)"

text \<open>
  Reading a chunk back: the DT elements directly under the DL of a chunk document,
  that is the document without its fixed part.
\<close>

definition chunk_dts :: "node \<Rightarrow> node list" where
  "chunk_dts doc =
     (case find_tag ''dl'' doc of
        None \<Rightarrow> []
      | Some dl \<Rightarrow> filter (is_named ''dt'') (children dl))"

definition bookmark_count :: "node \<Rightarrow> nat" where
  "bookmark_count doc = length (filter is_bookmark (chunk_dts doc))"

section \<open>The categorizer (src/agents/categorizer.py)\<close>

subsection \<open>Values, dictionaries and errors\<close>

text \<open>
  The values \<^verbatim>\<open>json.loads\<close> returns.  A Python dict keeps its keys in insertion
  order, so an object is an association list; the decoder never returns a dict with a
  repeated key.
\<close>

datatype json =
    JNull
  | JBool bool
  | JInt int
  | JFloat real
  | JString string
  | JArray "json list"
  | JObject "(string \<times> json) list"

text \<open>
  What a call of \<^verbatim>\<open>json.loads\<close> does: it returns a value, raises
  \<^verbatim>\<open>JSONDecodeError\<close> on text that is not JSON, or raises another exception (such
  as \<^verbatim>\<open>RecursionError\<close> on text nested too deep).
\<close>

datatype loads_result = Loaded json | JSONDecodeError | OtherException

type_synonym decoder = "string \<Rightarrow> loads_result"

type_synonym category_map = "(string \<times> json list) list"

text \<open>\<^verbatim>\<open>k in d\<close> and \<^verbatim>\<open>d.get(k, default)\<close> on a dict.\<close>

definition dict_contains :: "'k \<Rightarrow> ('k \<times> 'v) list \<Rightarrow> bool" where
  "dict_contains k d = (map_of d k \<noteq> None)"

definition dict_get :: "('k \<times> 'v) list \<Rightarrow> 'k \<Rightarrow> 'v \<Rightarrow> 'v" where
  "dict_get d k dflt = (case map_of d k of None \<Rightarrow> dflt | Some v \<Rightarrow> v)"

text \<open>
  The exceptions of the module.  Every one the module raises itself is a
  \<^verbatim>\<open>ValueError\<close> told apart by its message; the parts of a message that vary are
  kept as arguments.  \<^verbatim>\<open>RetryError\<close> is what the retry decorator raises once its
  attempts are used up.
\<close>

datatype parse_problem =
    NotDictionary
  | NotList string
  | InvalidBookmark string json
  | MissingFields string json
  | DecoderFailure

datatype error =
    OllamaError string
  | RetryError error
  | InvalidJSON
  | FailedToParse parse_problem
  | EmptyResponse
  | CategorizeFailed "nat list"

subsection \<open>\<^verbatim>\<open>_parse_response\<close>\<close>

text \<open>\<^verbatim>\<open>str.strip()\<close>, \<^verbatim>\<open>str.startswith\<close> and \<^verbatim>\<open>str.endswith\<close>.\<close>

definition py_isspace :: "char \<Rightarrow> bool" where
  "py_isspace c = ((of_char c :: nat) \<in> set [9, 10, 11, 12, 13, 28, 29, 30, 31, 32, 133, 160])"

definition strip :: "string \<Rightarrow> string" where
  "strip s = rev (dropWhile py_isspace (rev (dropWhile py_isspace s)))"

definition startswith :: "string \<Rightarrow> string \<Rightarrow> bool" where
  "startswith s p = (take (length p) s = p)"

definition endswith :: "string \<Rightarrow> string \<Rightarrow> bool" where
  "endswith s p = (length p \<le> length s \<and> drop (length s - length p) s = p)"

text \<open>The clean-up of the response text, lines 109 to 119.\<close>

definition clean_response :: "string \<Rightarrow> string" where
  "clean_response response =
     (let r0 = strip response;
          r1 = (if startswith r0 ''```json'' then drop 7 r0 else r0);
          r2 = (if startswith r1 ''```'' then drop 3 r1 else r1);
          r3 = (if endswith r2 ''```'' then take (length r2 - 3) r2 else r2)
      in strip r3)"

text \<open>The inner loop over the bookmarks of one category, lines 135 to 139.\<close>

fun validate_bookmarks :: "string \<Rightarrow> json list \<Rightarrow> parse_problem option" where
  "validate_bookmarks category [] = None"
| "validate_bookmarks category (bookmark # bookmarks) =
     (case bookmark of
        JObject kvs \<Rightarrow>
          (if \<not> dict_contains ''title'' kvs \<or> \<not> dict_contains ''url'' kvs
           then Some (MissingFields category bookmark)
           else validate_bookmarks category bookmarks)
      | _ \<Rightarrow> Some (InvalidBookmark category bookmark))"

text \<open>The loop over \<^verbatim>\<open>data.items()\<close>, lines 130 to 139.\<close>

fun validate_categories :: "(string \<times> json) list \<Rightarrow> parse_problem + category_map" where
  "validate_categories [] = Inr []"
| "validate_categories ((category, bookmarks) # items) =
     (case bookmarks of
        JArray bs \<Rightarrow>
          (case validate_bookmarks category bs of
             Some problem \<Rightarrow> Inl problem
           | None \<Rightarrow>
               (case validate_categories items of
                  Inl problem \<Rightarrow> Inl problem
                | Inr m \<Rightarrow> Inr ((category, bs) # m)))
      | _ \<Rightarrow> Inl (NotList category))"

definition validate_data :: "json \<Rightarrow> parse_problem + category_map" where
  "validate_data data =
     (case data of
        JObject items \<Rightarrow> validate_categories items
      | _ \<Rightarrow> Inl NotDictionary)"

text \<open>
  \<^verbatim>\<open>_parse_response\<close>.  The decoder \<^verbatim>\<open>json.loads\<close> belongs to the standard library
  and is a parameter.  The first handler reports a \<^verbatim>\<open>JSONDecodeError\<close> as
  \<open>InvalidJSON\<close>; the second handler catches every other exception, those raised by
  the checks and any other the decoder raises, and wraps it.
\<close>

definition parse_response :: "decoder \<Rightarrow> string \<Rightarrow> error + category_map" where
  "parse_response loads response =
     (case loads (clean_response response) of
        JSONDecodeError \<Rightarrow> Inl InvalidJSON
      | OtherException \<Rightarrow> Inl (FailedToParse DecoderFailure)
      | Loaded data \<Rightarrow>
          (case validate_data data of
             Inl problem \<Rightarrow> Inl (FailedToParse problem)
           | Inr m \<Rightarrow> Inr m))"

subsection \<open>\<^verbatim>\<open>_process\<close> under its retry decorator\<close>

text \<open>
  The prompt of a chunk is fixed text around the printed list \<^verbatim>\<open>bookmark_data\<close>;
  it is kept as that list.
\<close>

datatype prompt = Prompt "(string \<times> json) list list"

text \<open>
  The generation service is outside the program.  One request is one run of the body
  of \<^verbatim>\<open>_process\<close>: it ends with the collected text or with a \<^verbatim>\<open>ValueError\<close>.
  What the \<open>n\<close>-th request of a run (counted from 0) gives for a prompt is the
  parameter \<open>svc\<close>.  The state of a run records every request sent and every
  pause made by the decorator.
\<close>

type_synonym service = "nat \<Rightarrow> prompt \<Rightarrow> error + string"

record io_state =
  sent :: "prompt list"
  sleeps :: "nat list"

text \<open>
  \<^verbatim>\<open>wait_exponential(multiplier, min, max)\<close> of the retry library, for the pause
  after attempt \<open>attempt_number\<close>.
\<close>

definition wait_exponential :: "nat \<Rightarrow> nat \<Rightarrow> nat \<Rightarrow> nat \<Rightarrow> nat" where
  "wait_exponential multiplier mn mx attempt_number =
     max (max 0 mn) (min (multiplier * 2 ^ (attempt_number - 1)) mx)"

definition stop_after_attempt :: nat where
  "stop_after_attempt = 3"

text \<open>
  \<^verbatim>\<open>@retry(stop=stop_after_attempt(3), wait=wait_exponential(multiplier=1, min=4, max=10))\<close>
  around the body: attempt \<open>attempt_number\<close> and, if it raises, either stop or
  pause and try again.
\<close>

function process_attempts ::
  "service \<Rightarrow> prompt \<Rightarrow> nat \<Rightarrow> io_state \<Rightarrow> (error + string) \<times> io_state" where
  "process_attempts svc p attempt_number st =
     (let st1 = st\<lparr>sent := sent st @ [p]\<rparr>
      in case svc (length (sent st)) p of
           Inr full_response \<Rightarrow> (Inr full_response, st1)
         | Inl e \<Rightarrow>
             if attempt_number \<ge> stop_after_attempt then (Inl (RetryError e), st1)
             else process_attempts svc p (attempt_number + 1)
                    (st1\<lparr>sleeps := sleeps st1 @ [wait_exponential 1 4 10 attempt_number]\<rparr>))"
  by pat_completeness auto
termination
  by (relation "measure (\<lambda>(svc, p, n, st). stop_after_attempt - n)") auto

declare process_attempts.simps [simp del]

definition process :: "service \<Rightarrow> prompt \<Rightarrow> io_state \<Rightarrow> (error + string) \<times> io_state" where
  "process svc p st = process_attempts svc p 1 st"

subsection \<open>\<^verbatim>\<open>categorize_bookmarks\<close>\<close>

text \<open>The merge of one category of a chunk into the running result, lines 202 to 204.\<close>

definition merge_category :: "category_map \<Rightarrow> string \<times> json list \<Rightarrow> category_map" where
  "merge_category all_categories ci =
     (let category = fst ci; items = snd ci;
          all1 = (if \<not> dict_contains category all_categories
                  then AList.update category [] all_categories
                  else all_categories)
      in AList.update category (dict_get all1 category [] @ items) all1)"

text \<open>The loop over \<^verbatim>\<open>chunk_categories.items()\<close>, lines 201 to 204.\<close>

definition merge_categories :: "category_map \<Rightarrow> category_map \<Rightarrow> category_map" where
  "merge_categories all_categories chunk_categories =
     foldl merge_category all_categories chunk_categories"

record run_state =
  all_categories :: category_map
  failed_chunks :: "nat list"
  io :: io_state

definition CHUNK_SIZE :: nat where
  "CHUNK_SIZE = 10"

definition max_retries :: nat where
  "max_retries = 3"

text \<open>
  The body of the \<^verbatim>\<open>try\<close> up to the merge: one request through \<^verbatim>\<open>_process\<close>, the
  parse of its answer and the check that the parsed dict is not empty.
\<close>

definition attempt_chunk ::
  "decoder \<Rightarrow> service \<Rightarrow> prompt \<Rightarrow> io_state \<Rightarrow> (error + category_map) \<times> io_state" where
  "attempt_chunk loads svc p st =
     (case process svc p st of
        (Inl e, st1) \<Rightarrow> (Inl e, st1)
      | (Inr response, st1) \<Rightarrow>
          (case parse_response loads response of
             Inl e \<Rightarrow> (Inl e, st1)
           | Inr chunk_categories \<Rightarrow>
               if chunk_categories = [] then (Inl EmptyResponse, st1)
               else (Inr chunk_categories, st1)))"

text \<open>
  The \<^verbatim>\<open>while retry_count < max_retries\<close> loop of one chunk.  A success merges and
  leaves the loop; a failure counts, records the chunk once the count reaches the
  limit, and goes round again.
\<close>

function retry_loop ::
  "decoder \<Rightarrow> service \<Rightarrow> nat \<Rightarrow> prompt \<Rightarrow> nat \<Rightarrow> run_state \<Rightarrow> run_state" where
  "retry_loop loads svc chunk_num p retry_count st =
     (if retry_count < max_retries then
        (case attempt_chunk loads svc p (io st) of
           (Inr chunk_categories, st1) \<Rightarrow>
             st\<lparr>all_categories := merge_categories (all_categories st) chunk_categories,
                io := st1\<rparr>
         | (Inl e, st1) \<Rightarrow>
             (let retry_count1 = retry_count + 1;
                  st2 = (if retry_count1 \<ge> max_retries
                         then st\<lparr>failed_chunks := failed_chunks st @ [chunk_num], io := st1\<rparr>
                         else st\<lparr>io := st1\<rparr>)
              in retry_loop loads svc chunk_num p retry_count1 st2))
      else st)"
  by pat_completeness auto
termination
  by (relation "measure (\<lambda>(loads, svc, cn, p, rc, st). max_retries - rc)") auto

declare retry_loop.simps [simp del]

text \<open>\<^verbatim>\<open>range(start, stop, step)\<close> for a positive step, and the slice \<^verbatim>\<open>xs[i:j]\<close>.\<close>

definition py_range :: "nat \<Rightarrow> nat \<Rightarrow> nat \<Rightarrow> nat list" where
  "py_range start stop step =
     map (\<lambda>j. start + j * step) [0 ..< (stop - start + step - 1) div step]"

definition slice :: "'a list \<Rightarrow> nat \<Rightarrow> nat \<Rightarrow> 'a list" where
  "slice xs i j = take (j - i) (drop i xs)"

text \<open>The list \<^verbatim>\<open>bookmark_data\<close> of a chunk, lines 170 to 176, and its prompt.\<close>

definition bookmark_data :: "(string \<times> json) list list \<Rightarrow> (string \<times> json) list list" where
  "bookmark_data chunk =
     map (\<lambda>b. [(''title'', dict_get b ''title'' (JString ''Untitled'')),
                (''url'', dict_get b ''url'' (JString [])),
                (''folder'', dict_get b ''folder'' (JString []))]) chunk"

definition chunk_prompt :: "(string \<times> json) list list \<Rightarrow> prompt" where
  "chunk_prompt chunk = Prompt (bookmark_data chunk)"

text \<open>The body of the \<^verbatim>\<open>for i in range(0, len(bookmarks), CHUNK_SIZE)\<close> loop.\<close>

definition for_body ::
  "decoder \<Rightarrow> service \<Rightarrow> (string \<times> json) list list \<Rightarrow> nat \<Rightarrow> run_state \<Rightarrow> run_state" where
  "for_body loads svc bookmarks i st =
     (let chunk = slice bookmarks i (i + CHUNK_SIZE);
          chunk_num = i div CHUNK_SIZE + 1
      in retry_loop loads svc chunk_num (chunk_prompt chunk) 0 st)"

definition run_chunks ::
  "decoder \<Rightarrow> service \<Rightarrow> (string \<times> json) list list \<Rightarrow> io_state \<Rightarrow> run_state" where
  "run_chunks loads svc bookmarks st0 =
     fold (for_body loads svc bookmarks) (py_range 0 (length bookmarks) CHUNK_SIZE)
       \<lparr>all_categories = [], failed_chunks = [], io = st0\<rparr>"

definition categorize_bookmarks ::
  "decoder \<Rightarrow> service \<Rightarrow> (string \<times> json) list list \<Rightarrow> io_state
     \<Rightarrow> (error + category_map) \<times> io_state" where
  "categorize_bookmarks loads svc bookmarks st0 =
     (if bookmarks = [] then (Inr [], st0)
      else
        (let st = run_chunks loads svc bookmarks st0
         in if failed_chunks st \<noteq> [] \<and> all_categories st = []
            then (Inl (CategorizeFailed (failed_chunks st)), io st)
            else (Inr (all_categories st), io st)))"

text \<open>The chunks the loop walks through, in order.\<close>

definition bookmark_chunks :: "'a list \<Rightarrow> 'a list list" where
  "bookmark_chunks bookmarks =
     map (\<lambda>i. slice bookmarks i (i + CHUNK_SIZE)) (py_range 0 (length bookmarks) CHUNK_SIZE)"

subsection \<open>The outcome of a run, chunk by chunk\<close>

text \<open>
  A second, direct description of what the aggregator is to compute, to compare the
  loops with.  The outcome of one chunk is the map of the first of at most three
  combined attempts (request, parse, non-empty check) that succeeds, or \<open>None\<close>
  when all three fail: the chunk has then failed permanently.
\<close>

definition chunk_outcome ::
  "decoder \<Rightarrow> service \<Rightarrow> prompt \<Rightarrow> io_state \<Rightarrow> category_map option \<times> io_state" where
  "chunk_outcome loads svc p s0 =
     (case attempt_chunk loads svc p s0 of
        (Inr c, s1) \<Rightarrow> (Some c, s1)
      | (Inl e1, s1) \<Rightarrow>
          (case attempt_chunk loads svc p s1 of
             (Inr c, s2) \<Rightarrow> (Some c, s2)
           | (Inl e2, s2) \<Rightarrow>
               (case attempt_chunk loads svc p s2 of
                  (Inr c, s3) \<Rightarrow> (Some c, s3)
                | (Inl e3, s3) \<Rightarrow> (None, s3))))"

text \<open>The outcomes of all chunks in order; a failed chunk does not stop the walk.\<close>

fun chunk_outcomes ::
  "decoder \<Rightarrow> service \<Rightarrow> prompt list \<Rightarrow> io_state \<Rightarrow> category_map option list" where
  "chunk_outcomes loads svc [] s = []"
| "chunk_outcomes loads svc (p # ps) s =
     (case chunk_outcome loads svc p s of (r, s1) \<Rightarrow> r # chunk_outcomes loads svc ps s1)"

text \<open>The numbers (from 1) of the chunks that failed, and the maps of the others.\<close>

definition permanently_failed :: "category_map option list \<Rightarrow> nat list" where
  "permanently_failed os = map (\<lambda>jo. fst jo + 1) (filter (\<lambda>jo. snd jo = None) (enumerate 0 os))"

definition successes :: "category_map option list \<Rightarrow> category_map list" where
  "successes os = concat (map (\<lambda>r. case r of None \<Rightarrow> [] | Some c \<Rightarrow> [c]) os)"

subsection \<open>Well-formed items\<close>

text \<open>
  What the checks of \<^verbatim>\<open>_parse_response\<close> accept, said directly: an item is a dict
  with a \<^verbatim>\<open>title\<close> key and a \<^verbatim>\<open>url\<close> key, and a category holds a list of such items.
\<close>

fun is_object :: "json \<Rightarrow> bool" where
  "is_object (JObject kvs) = True"
| "is_object _ = False"

fun is_array :: "json \<Rightarrow> bool" where
  "is_array (JArray bs) = True"
| "is_array _ = False"

fun array_items :: "json \<Rightarrow> json list" where
  "array_items (JArray bs) = bs"
| "array_items _ = []"

definition item_ok :: "json \<Rightarrow> bool" where
  "item_ok b = (case b of
                  JObject kvs \<Rightarrow> dict_contains ''title'' kvs \<and> dict_contains ''url'' kvs
                | _ \<Rightarrow> False)"

definition category_ok :: "string \<times> json \<Rightarrow> bool" where
  "category_ok cv = (is_array (snd cv) \<and> list_all item_ok (array_items (snd cv)))"

text \<open>The error the inner loop raises for an item it rejects.\<close>

definition item_problem :: "string \<Rightarrow> json \<Rightarrow> parse_problem" where
  "item_problem category b =
     (if is_object b then MissingFields category b else InvalidBookmark category b)"

subsection \<open>The markers around a fenced response\<close>

text \<open>
  What the clean-up removes, said directly.  At the front of a text it is the longest
  of: the json fence followed at once by a plain fence, the json fence, the plain
  fence, nothing.  At the end of what then remains it is one plain fence, or nothing.
\<close>

definition leading_marker :: "string \<Rightarrow> string" where
  "leading_marker r =
     (if startswith r ''```json```'' then ''```json```''
      else if startswith r ''```json'' then ''```json''
      else if startswith r ''```'' then ''```''
      else [])"

definition trailing_marker :: "string \<Rightarrow> string" where
  "trailing_marker r = (if endswith r ''```'' then ''```'' else [])"

definition unfenced :: "string \<Rightarrow> string" where
  "unfenced r =
     (let rest = drop (length (leading_marker r)) r
      in take (length rest - length (trailing_marker rest)) rest)"

section \<open>Example inputs\<close>

text \<open>A bookmark file with three bookmarks directly under the root list.\<close>

definition flat3 :: node where
  "flat3 = Tag ''[document]'' [Tag ''dl''
     [Tag ''dt'' [Tag ''a'' [NavigableString ''one'']],
      Tag ''dt'' [Tag ''a'' [NavigableString ''two'']],
      Tag ''dt'' [Tag ''a'' [NavigableString ''three'']]]]"

text \<open>A bookmark file with one folder that holds two bookmarks.\<close>

definition bm_one :: node where
  "bm_one = Tag ''dt'' [Tag ''a'' [NavigableString ''one'']]"

definition bm_two :: node where
  "bm_two = Tag ''dt'' [Tag ''a'' [NavigableString ''two'']]"

definition folder_dt :: node where
  "folder_dt = Tag ''dt'' [Tag ''h3'' [NavigableString ''Folder''], Tag ''dl'' [bm_one, bm_two]]"

definition folder_soup :: node where
  "folder_soup = Tag ''[document]'' [Tag ''dl'' [folder_dt]]"

text \<open>
  Three bookmarks written without closing tags, as browsers export them: the parser
  closes no DT, so each DT holds the next one.
\<close>

definition nested_three :: node where
  "nested_three = Tag ''dt'' [Tag ''a'' [NavigableString ''three'']]"

definition nested_two :: node where
  "nested_two = Tag ''dt'' [Tag ''a'' [NavigableString ''two''], nested_three]"

definition nested_one :: node where
  "nested_one = Tag ''dt'' [Tag ''a'' [NavigableString ''one''], nested_two]"

definition nested_soup :: node where
  "nested_soup = Tag ''[document]'' [Tag ''dl'' [nested_one]]"

text \<open>Two chunk results that share the category Dev.\<close>

definition item :: "string \<Rightarrow> string \<Rightarrow> json" where
  "item t u = JObject [(''title'', JString t), (''url'', JString u)]"

definition chunk1_categories :: category_map where
  "chunk1_categories = [(''Dev'', [item ''a'' ''u1''])]"

definition chunk2_categories :: category_map where
  "chunk2_categories = [(''Dev'', [item ''b'' ''u2'']), (''News'', [item ''n'' ''u3''])]"

text \<open>
  Response texts.  The double quote is written by its code.  A decoder given by a
  table of texts and their values stands for \<^verbatim>\<open>json.loads\<close>: it agrees with it on the
  texts listed and rejects every other text as not JSON.
\<close>

definition dq :: string where
  "dq = [CHR 0x22]"

definition text_A_empty :: string where
  "text_A_empty = ''{'' @ dq @ ''A'' @ dq @ '':[]}''"

definition fenced_A_empty :: string where
  "fenced_A_empty = ''```json'' @ [CHR 0x0A] @ text_A_empty @ [CHR 0x0A] @ ''```''"

definition text_missing_url :: string where
  "text_missing_url = ''{'' @ dq @ ''A'' @ dq @ '':[{'' @ dq @ ''title'' @ dq @ '':'' @ dq @ ''x'' @ dq @ ''}]}''"

definition text_empty_url :: string where
  "text_empty_url = ''{'' @ dq @ ''A'' @ dq @ '':[{'' @ dq @ ''title'' @ dq @ '':'' @ dq @ ''x'' @ dq
     @ '','' @ dq @ ''url'' @ dq @ '':'' @ dq @ dq @ ''}]}''"

definition loads_table :: decoder where
  "loads_table s =
     (case map_of
        [(text_A_empty, JObject [(''A'', JArray [])]),
         (''{}'', JObject []),
         (text_missing_url, JObject [(''A'', JArray [JObject [(''title'', JString ''x'')]])]),
         (text_empty_url,
            JObject [(''A'', JArray [JObject [(''title'', JString ''x''), (''url'', JString [])]])])]
        s of
        None \<Rightarrow> JSONDecodeError
      | Some v \<Rightarrow> Loaded v)"

text \<open>
  Eleven bookmarks (two chunks), a fresh run state, and four services: one that is
  down for the first nine requests, one that is always down, one that always answers
  with the empty object, and one that always answers with text that is not JSON.
\<close>

definition bookmarks11 :: "(string \<times> json) list list" where
  "bookmarks11 = replicate 11 [(''title'', JString ''t''), (''url'', JString ''u'')]"

definition io_init :: io_state where
  "io_init = \<lparr>sent = [], sleeps = []\<rparr>"

definition svc_recovering :: service where
  "svc_recovering n p = (if n < 9 then Inl (OllamaError ''down'') else Inr text_A_empty)"

definition svc_down :: service where
  "svc_down n p = Inl (OllamaError ''down'')"

definition svc_empty :: service where
  "svc_empty n p = Inr ''{}''"

definition svc_not_json :: service where
  "svc_not_json n p = Inr ''not json''"

definition svc_empty_then_A :: service where
  "svc_empty_then_A n p = (if n = 0 then Inr ''{}'' else Inr text_A_empty)"

definition run_init :: run_state where
  "run_init = \<lparr>all_categories = [], failed_chunks = [], io = io_init\<rparr>"

section \<open>Properties of the chunker\<close>

lemma find_tag_dl_create:
  "find_tag ''dl'' (create_chunk_html ds) = Some (Tag ''dl'' (boilerplate_dl_contents @ ds))"
  by (simp add: find_tag_def find_all_def create_chunk_html_def boilerplate_head_def)

lemma chunk_dts_create:
  "list_all (is_named ''dt'') ds \<Longrightarrow> chunk_dts (create_chunk_html ds) = ds"
  by (simp add: chunk_dts_def find_tag_dl_create boilerplate_dl_contents_def list_all_iff filter_id_conv)

lemma chunk_loop_concat:
  "list_all (is_named ''dt'') cur \<Longrightarrow> list_all (is_named ''dt'') dts \<Longrightarrow>
   concat (map chunk_dts (chunk_loop k dts cur cnt)) = cur @ dts"
proof (induction dts arbitrary: cur cnt)
  case Nil
  then show ?case by (simp add: chunk_dts_create)
next
  case (Cons d dts)
  then show ?case by (simp add: chunk_dts_create Let_def)
qed

lemma find_all_named: "list_all (is_named nm) (find_all nm t)"
  by (simp add: find_all_def list_all_iff)

text \<open>
  The DT elements appended to the chunk documents, taken in order, are the elements
  the loop walked over (\<^verbatim>\<open>all_dt\<close>), each appended once; a file without a root DL
  yields no chunk.
\<close>

lemma chunk_content_appended_elements:
  "concat (map chunk_dts (chunk_content self soup)) =
     (case find_tag ''dl'' soup of None \<Rightarrow> [] | Some root_dl \<Rightarrow> find_all ''dt'' root_dl)"
  by (simp add: chunk_content_def chunk_loop_concat find_all_named split: option.split)

text \<open>
  Claim C1 says that the chunks, read back, give the node sequence of the input with
  every node in exactly one chunk.  The chunker does not do that for a tree with a DT
  below a DT.  It walks over all DT elements at every depth and copies each with
  everything below it, so a nested element is appended on its own and is also inside
  the copy of each DT above it.  With a folder of two bookmarks and the limit 50 the
  input has three DT elements and the one chunk has five; read by direct children
  the input has one DT under its root and the chunk three.  With three bookmarks
  whose DT tags are not closed and the limit 2 the third bookmark is in both chunks,
  and the first chunk holds five links although the limit is 2.  The folder, which
  has an H3 and no link of its own, is counted as a bookmark.
\<close>

theorem chunk_content_repeats_nodes:
  "find_tag ''dl'' folder_soup = Some (Tag ''dl'' [folder_dt])
   \<and> find_all ''dt'' (Tag ''dl'' [folder_dt]) = [folder_dt, bm_one, bm_two]
   \<and> is_bookmark folder_dt
   \<and> chunk_content (BookmarkChunker_init 50) folder_soup
       = [create_chunk_html [folder_dt, bm_one, bm_two]]
   \<and> map (find_all ''dt'') (chunk_content (BookmarkChunker_init 50) folder_soup)
       = [[folder_dt, bm_one, bm_two, bm_one, bm_two]]
   \<and> filter (is_named ''dt'') (children (Tag ''dl'' [folder_dt])) = [folder_dt]
   \<and> map chunk_dts (chunk_content (BookmarkChunker_init 50) folder_soup)
       = [[folder_dt, bm_one, bm_two]]
   \<and> find_tag ''dl'' nested_soup = Some (Tag ''dl'' [nested_one])
   \<and> find_all ''dt'' (Tag ''dl'' [nested_one]) = [nested_one, nested_two, nested_three]
   \<and> chunk_content (BookmarkChunker_init 2) nested_soup
       = [create_chunk_html [nested_one, nested_two], create_chunk_html [nested_three]]
   \<and> map (find_all ''dt'') (chunk_content (BookmarkChunker_init 2) nested_soup)
       = [[nested_one, nested_two, nested_three, nested_two, nested_three], [nested_three]]
   \<and> map (\<lambda>doc. length (find_all ''a'' doc)) (chunk_content (BookmarkChunker_init 2) nested_soup)
       = [5, 1]"
  by (simp add: chunk_content_def BookmarkChunker_init_def folder_soup_def folder_dt_def
      bm_one_def bm_two_def nested_soup_def nested_one_def nested_two_def nested_three_def
      find_all_def is_bookmark_def find_tag_def chunk_dts_def
      create_chunk_html_def boilerplate_head_def boilerplate_dl_contents_def)

lemma div_one_more: "0 < (k::int) \<Longrightarrow> (x + k) div k = 1 + x div k"
  using div_add_self2 [of k x] by simp

lemma ceil_small: "0 < (c::int) \<Longrightarrow> c < k \<Longrightarrow> (c + k - 1) div k = 1"
proof -
  assume a: "0 < c" "c < k"
  have "(c + k - 1) div k = ((c - 1) + k) div k" by (simp add: algebra_simps)
  also have "\<dots> = 1 + (c - 1) div k" using a by (intro div_one_more) simp
  also have "(c - 1) div k = 0" using a by (intro div_pos_pos_trivial) simp_all
  finally show ?thesis by simp
qed

lemma chunk_loop_length:
  "0 < k \<Longrightarrow> list_all is_bookmark dts \<Longrightarrow> cnt = int (length cur) \<Longrightarrow> cnt < k \<Longrightarrow>
   int (length (chunk_loop k dts cur cnt)) = (cnt + int (length dts) + k - 1) div k"
proof (induction dts arbitrary: cur cnt)
  case Nil
  show ?case
  proof (cases "cur = []")
    case True
    with Nil show ?thesis by simp
  next
    case False
    with Nil have "0 < cnt" by simp
    with Nil have "(cnt + k - 1) div k = 1" by (intro ceil_small) simp_all
    with False show ?thesis by simp
  qed
next
  case (Cons d dts)
  show ?case
  proof (cases "cnt + 1 \<ge> k")
    case True
    with Cons.prems have e: "cnt + 1 = k" by simp
    have "int (length (chunk_loop k dts [] 0)) = (0 + int (length dts) + k - 1) div k"
      using Cons.prems by (intro Cons.IH) simp_all
    moreover have "(cnt + int (length (d # dts)) + k - 1) div k = 1 + (int (length dts) + k - 1) div k"
    proof -
      have "cnt + int (length (d # dts)) + k - 1 = (int (length dts) + k - 1) + k" using e by simp
      then have "(cnt + int (length (d # dts)) + k - 1) div k = ((int (length dts) + k - 1) + k) div k"
        by (simp only:)
      also have "\<dots> = 1 + (int (length dts) + k - 1) div k"
        using Cons.prems(1) by (rule div_one_more)
      finally show ?thesis .
    qed
    ultimately show ?thesis using True Cons.prems by (simp add: Let_def)
  next
    case False
    have "int (length (chunk_loop k dts (cur @ [d]) (cnt + 1))) = ((cnt + 1) + int (length dts) + k - 1) div k"
      using Cons.prems False by (intro Cons.IH) simp_all
    moreover have "(cnt + 1) + int (length dts) + k - 1 = cnt + int (length (d # dts)) + k - 1" by simp
    ultimately show ?thesis using False Cons.prems by (simp add: Let_def)
  qed
qed

lemma sum_bookmark_count:
  "sum_list (map bookmark_count cs) = length (filter is_bookmark (concat (map chunk_dts cs)))"
  by (induction cs) (simp_all add: bookmark_count_def)

text \<open>
  Claim C2.  When every element walked over is a bookmark (no folder) and the limit
  \<open>K\<close> is positive, a file with \<open>N\<close> elements yields \<open>(N + K - 1) div K\<close> chunks, that
  is the ceiling of \<open>N / K\<close>; the bookmark counts of the chunks add up to \<open>N\<close>; and
  no element gives no chunk.  A remainder shorter than the limit is therefore
  yielded as a last chunk.
\<close>

theorem chunk_content_flat_count:
  assumes "0 < max_bookmarks_per_chunk self"
    and "find_tag ''dl'' soup = Some root_dl"
    and "list_all is_bookmark (find_all ''dt'' root_dl)"
  shows "int (length (chunk_content self soup)) =
           (int (length (find_all ''dt'' root_dl)) + max_bookmarks_per_chunk self - 1)
             div max_bookmarks_per_chunk self
         \<and> sum_list (map bookmark_count (chunk_content self soup)) = length (find_all ''dt'' root_dl)
         \<and> (find_all ''dt'' root_dl = [] \<longrightarrow> chunk_content self soup = [])"
proof -
  let ?k = "max_bookmarks_per_chunk self"
  let ?dts = "find_all ''dt'' root_dl"
  have cc: "chunk_content self soup = chunk_loop ?k ?dts [] 0"
    using assms(2) by (simp add: chunk_content_def)
  have "int (length (chunk_loop ?k ?dts [] 0)) = (0 + int (length ?dts) + ?k - 1) div ?k"
    using assms(1,3) by (intro chunk_loop_length) simp_all
  then have n: "int (length (chunk_content self soup)) = (int (length ?dts) + ?k - 1) div ?k"
    using cc by simp
  have "concat (map chunk_dts (chunk_content self soup)) = ?dts"
    using cc by (simp add: chunk_loop_concat find_all_named)
  then have "sum_list (map bookmark_count (chunk_content self soup)) = length (filter is_bookmark ?dts)"
    by (simp add: sum_bookmark_count)
  also have "\<dots> = length ?dts"
    using assms(3) by (simp add: list_all_iff)
  finally have s: "sum_list (map bookmark_count (chunk_content self soup)) = length ?dts" .
  have e: "?dts = [] \<longrightarrow> chunk_content self soup = []"
    using cc by simp
  from n s e show ?thesis by blast
qed

lemma flat3_dl: "find_tag ''dl'' flat3 = Some (Tag ''dl''
     [Tag ''dt'' [Tag ''a'' [NavigableString ''one'']],
      Tag ''dt'' [Tag ''a'' [NavigableString ''two'']],
      Tag ''dt'' [Tag ''a'' [NavigableString ''three'']]])"
  by (simp add: flat3_def find_tag_def find_all_def)

lemma empty_dl: "find_tag ''dl'' (Tag ''[document]'' [Tag ''dl'' []]) = Some (Tag ''dl'' [])"
  by (simp add: find_tag_def find_all_def)

text \<open>Three bookmarks with limit 2 give two chunks; an empty list gives none.\<close>

theorem chunk_content_flat_count_witness:
  "int (length (chunk_content (BookmarkChunker_init 2) flat3)) = 2
   \<and> sum_list (map bookmark_count (chunk_content (BookmarkChunker_init 2) flat3)) = 3
   \<and> chunk_content (BookmarkChunker_init 2) (Tag ''[document]'' [Tag ''dl'' []]) = []"
  using chunk_content_flat_count [of "BookmarkChunker_init 2" flat3, OF _ flat3_dl]
    chunk_content_flat_count [of "BookmarkChunker_init 2" "Tag ''[document]'' [Tag ''dl'' []]",
      OF _ empty_dl]
  by (simp add: BookmarkChunker_init_def find_all_def find_tag_def is_bookmark_def)

lemma chunk_loop_nonpositive:
  "k \<le> 0 \<Longrightarrow> chunk_loop k dts [] 0 = map (\<lambda>dt. create_chunk_html [dt]) dts"
  by (induction dts) (simp_all add: Let_def)

text \<open>
  Claim C9 as the specification has it (a limit that is not positive is an input
  error and no chunk is produced) does not hold: with the limit 0 the chunker
  raises nothing and yields three chunks for three bookmarks.
\<close>

theorem chunk_content_zero_limit_counterexample:
  "chunk_content (BookmarkChunker_init 0) flat3 =
     [create_chunk_html [Tag ''dt'' [Tag ''a'' [NavigableString ''one'']]],
      create_chunk_html [Tag ''dt'' [Tag ''a'' [NavigableString ''two'']]],
      create_chunk_html [Tag ''dt'' [Tag ''a'' [NavigableString ''three'']]]]"
  by (simp add: chunk_content_def BookmarkChunker_init_def flat3_def find_all_def is_bookmark_def find_tag_def)

text \<open>
  Claim C9, amended.  The chunker checks its limit nowhere; with a limit that is not
  positive the test \<^verbatim>\<open>current_bookmark_count >= max_bookmarks_per_chunk\<close> holds after
  every element, so each DT element is yielded as a chunk of its own.
\<close>

theorem chunk_content_nonpositive_limit:
  assumes "max_bookmarks_per_chunk self \<le> 0"
  shows "chunk_content self soup =
     (case find_tag ''dl'' soup of
        None \<Rightarrow> []
      | Some root_dl \<Rightarrow> map (\<lambda>dt. create_chunk_html [dt]) (find_all ''dt'' root_dl))"
  using assms by (simp add: chunk_content_def chunk_loop_nonpositive split: option.split)

theorem chunk_content_nonpositive_limit_witness:
  "chunk_content (BookmarkChunker_init (- 1)) flat3 =
     [create_chunk_html [Tag ''dt'' [Tag ''a'' [NavigableString ''one'']]],
      create_chunk_html [Tag ''dt'' [Tag ''a'' [NavigableString ''two'']]],
      create_chunk_html [Tag ''dt'' [Tag ''a'' [NavigableString ''three'']]]]"
  using chunk_content_nonpositive_limit [of "BookmarkChunker_init (- 1)" flat3]
  by (simp add: BookmarkChunker_init_def flat3_dl find_all_def)

section \<open>Properties of the merge\<close>

lemma merge_category_keys:
  "map fst (merge_category al (c, items)) =
     (if c \<in> set (map fst al) then map fst al else map fst al @ [c])"
  by (simp add: merge_category_def Let_def dict_contains_def map_of_eq_None_iff update_keys
      del: set_map)

lemma merge_category_map_of:
  "map_of (merge_category al (c, items)) =
     (map_of al)(c \<mapsto> (case map_of al c of None \<Rightarrow> [] | Some old \<Rightarrow> old) @ items)"
  by (auto simp add: merge_category_def Let_def dict_contains_def dict_get_def update_conv'
      split: option.splits)

lemma merge_categories_keys:
  "distinct (map fst chunk) \<Longrightarrow>
   map fst (merge_categories al chunk) =
     map fst al @ filter (\<lambda>k. k \<notin> set (map fst al)) (map fst chunk)"
  unfolding merge_categories_def
proof (induction chunk arbitrary: al)
  case Nil
  then show ?case by simp
next
  case (Cons ci chunk)
  obtain c items where ci: "ci = (c, items)" by (cases ci)
  from Cons.prems ci have nc: "c \<notin> set (map fst chunk)" and d: "distinct (map fst chunk)"
    by simp_all
  have f: "filter (\<lambda>k. k \<notin> set (map fst al @ [c])) (map fst chunk)
         = filter (\<lambda>k. k \<notin> set (map fst al)) (map fst chunk)"
    using nc by (intro filter_cong) auto
  show ?case
  proof (cases "c \<in> set (map fst al)")
    case True
    then show ?thesis
      using Cons.IH [OF d, of "merge_category al (c, items)"]
      by (simp add: ci merge_category_keys del: set_map)
  next
    case False
    then show ?thesis
      using Cons.IH [OF d, of "merge_category al (c, items)"] f
      by (simp add: ci merge_category_keys del: set_map set_append)
  qed
qed

lemma merge_categories_map_of:
  "distinct (map fst chunk) \<Longrightarrow>
   map_of (merge_categories al chunk) k =
     (case map_of chunk k of
        None \<Rightarrow> map_of al k
      | Some items \<Rightarrow> Some ((case map_of al k of None \<Rightarrow> [] | Some old \<Rightarrow> old) @ items))"
  unfolding merge_categories_def
proof (induction chunk arbitrary: al)
  case Nil
  then show ?case by simp
next
  case (Cons ci chunk)
  obtain c items where ci: "ci = (c, items)" by (cases ci)
  from Cons.prems ci have nc: "c \<notin> set (map fst chunk)" and d: "distinct (map fst chunk)"
    by simp_all
  from nc have none: "map_of chunk c = None" by (simp add: map_of_eq_None_iff)
  show ?case
    using Cons.IH [OF d, of "merge_category al (c, items)"] none
    by (auto simp add: ci merge_category_map_of split: option.splits)
qed

lemma merge_categories_distinct:
  "distinct (map fst chunk) \<Longrightarrow> distinct (map fst al) \<Longrightarrow>
   distinct (map fst (merge_categories al chunk))"
  by (auto simp add: merge_categories_keys)

lemma first_seen_snoc:
  "rev (remdups (rev (xs @ [x]))) =
     (if x \<in> set xs then rev (remdups (rev xs)) else rev (remdups (rev xs)) @ [x])"
  by simp

lemma first_seen_append:
  "rev (remdups (rev (xs @ ys))) =
     rev (remdups (rev xs)) @ filter (\<lambda>k. k \<notin> set xs) (rev (remdups (rev ys)))"
proof (induction ys rule: rev_induct)
  case Nil
  then show ?case by simp
next
  case (snoc y ys)
  have "rev (remdups (rev (xs @ ys @ [y]))) =
        (if y \<in> set (xs @ ys) then rev (remdups (rev (xs @ ys)))
         else rev (remdups (rev (xs @ ys))) @ [y])"
    using first_seen_snoc [of "xs @ ys" y] by simp
  then show ?case using snoc.IH by auto
qed

lemma first_seen_distinct: "distinct xs \<Longrightarrow> rev (remdups (rev xs)) = xs"
  by (simp add: distinct_remdups_id)

lemma merge_all_keys:
  "list_all (\<lambda>c. distinct (map fst c)) cs \<Longrightarrow> distinct (map fst al) \<Longrightarrow>
   map fst (foldl merge_categories al cs) =
     rev (remdups (rev (map fst al @ concat (map (map fst) cs))))"
proof (induction cs arbitrary: al)
  case Nil
  then show ?case by (simp add: distinct_remdups_id)
next
  case (Cons c cs)
  from Cons.prems have dc: "distinct (map fst c)" and dcs: "list_all (\<lambda>c. distinct (map fst c)) cs"
    by simp_all
  let ?al = "merge_categories al c"
  have d': "distinct (map fst ?al)"
    using dc Cons.prems(2) by (rule merge_categories_distinct)
  have k: "map fst ?al = rev (remdups (rev (map fst al @ map fst c)))"
    using first_seen_append [of "map fst al" "map fst c"] dc Cons.prems(2)
    by (simp only: merge_categories_keys [OF dc] first_seen_distinct)
  have "map fst (foldl merge_categories ?al cs) =
        rev (remdups (rev (map fst ?al @ concat (map (map fst) cs))))"
    using dcs d' by (rule Cons.IH)
  also have "\<dots> = rev (remdups (rev (map fst ?al)))
        @ filter (\<lambda>k. k \<notin> set (map fst ?al)) (rev (remdups (rev (concat (map (map fst) cs)))))"
    by (rule first_seen_append)
  also have "rev (remdups (rev (map fst ?al))) = rev (remdups (rev (map fst al @ map fst c)))"
    using d' k by (simp only: first_seen_distinct)
  also have "set (map fst ?al) = set (map fst al @ map fst c)"
    by (simp only: k set_rev set_remdups)
  also have "rev (remdups (rev (map fst al @ map fst c)))
        @ filter (\<lambda>k. k \<notin> set (map fst al @ map fst c)) (rev (remdups (rev (concat (map (map fst) cs)))))
      = rev (remdups (rev ((map fst al @ map fst c) @ concat (map (map fst) cs))))"
    by (rule first_seen_append [symmetric])
  finally show ?case by simp
qed

text \<open>
  Claim C4.  Merging the category map of a chunk (a dict, so its keys are distinct)
  into the running result keeps the keys already there in their order and appends
  the new keys in the order of the chunk; under every key of the chunk the result
  holds the items that were there before (none for a new key) followed by the items
  of the chunk, in the chunk's order, and the other keys are untouched.  Merging a
  sequence of chunk maps into the empty result therefore lists the keys in the order
  of their first appearance across the chunks.
\<close>

theorem merge_categories_by_name:
  assumes "distinct (map fst chunk_categories)"
    and "list_all (\<lambda>c. distinct (map fst c)) chunks"
  shows "map fst (merge_categories al chunk_categories) =
           map fst al @ filter (\<lambda>k. \<not> dict_contains k al) (map fst chunk_categories)
         \<and> (\<forall>category. map_of (merge_categories al chunk_categories) category =
               (case map_of chunk_categories category of
                  None \<Rightarrow> map_of al category
                | Some items \<Rightarrow> Some (dict_get al category [] @ items)))
         \<and> map fst (foldl merge_categories [] chunks) =
             rev (remdups (rev (concat (map (map fst) chunks))))"
proof -
  have "map fst (merge_categories al chunk_categories) =
          map fst al @ filter (\<lambda>k. k \<notin> set (map fst al)) (map fst chunk_categories)"
    using assms(1) by (rule merge_categories_keys)
  then have a: "map fst (merge_categories al chunk_categories) =
          map fst al @ filter (\<lambda>k. \<not> dict_contains k al) (map fst chunk_categories)"
    by (simp add: dict_contains_def map_of_eq_None_iff)
  have b: "\<forall>category. map_of (merge_categories al chunk_categories) category =
               (case map_of chunk_categories category of
                  None \<Rightarrow> map_of al category
                | Some items \<Rightarrow> Some (dict_get al category [] @ items))"
    using assms(1) by (simp add: merge_categories_map_of dict_get_def split: option.split)
  have c: "map fst (foldl merge_categories [] chunks) =
             rev (remdups (rev (concat (map (map fst) chunks))))"
    using merge_all_keys [OF assms(2), of "[]"] by simp
  from a b c show ?thesis by blast
qed

text \<open>The example of the specification: Dev from two chunks, News from the second.\<close>

theorem merge_categories_by_name_witness:
  "merge_categories chunk1_categories chunk2_categories =
     [(''Dev'', [item ''a'' ''u1'', item ''b'' ''u2'']), (''News'', [item ''n'' ''u3''])]
   \<and> map fst (merge_categories chunk1_categories chunk2_categories) = [''Dev'', ''News'']
   \<and> map_of (merge_categories chunk1_categories chunk2_categories) ''Dev''
       = Some [item ''a'' ''u1'', item ''b'' ''u2'']
   \<and> map fst (foldl merge_categories [] [chunk1_categories, chunk2_categories]) = [''Dev'', ''News'']"
  using merge_categories_by_name [of chunk2_categories "[chunk1_categories, chunk2_categories]"
      chunk1_categories]
  by (simp add: chunk1_categories_def chunk2_categories_def merge_categories_def
      merge_category_def dict_contains_def dict_get_def)

section \<open>Properties of the slicing of the bookmark list\<close>

lemma bookmark_chunks_alt:
  "bookmark_chunks bs = map (\<lambda>j. take CHUNK_SIZE (drop (j * CHUNK_SIZE) bs))
       [0 ..< (length bs + CHUNK_SIZE - 1) div CHUNK_SIZE]"
  by (simp add: bookmark_chunks_def py_range_def slice_def comp_def)

lemma concat_takes:
  "concat (map (\<lambda>j. take n (drop (j * n) xs)) [0 ..< m]) = take (m * n) xs"
proof (induction m)
  case 0
  then show ?case by simp
next
  case (Suc m)
  have "take (m * n + n) xs = take (m * n) xs @ take n (drop (m * n) xs)"
    by (rule take_add)
  then show ?case using Suc by (simp add: add.commute)
qed

lemma ceil_times_ge: "0 < n \<Longrightarrow> (l::nat) \<le> ((l + n - 1) div n) * n"
proof -
  assume n: "0 < n"
  have "l + n - 1 = ((l + n - 1) div n) * n + (l + n - 1) mod n" by simp
  moreover have "(l + n - 1) mod n < n" using n by simp
  ultimately show ?thesis by linarith
qed

lemma bookmark_chunks_concat: "concat (bookmark_chunks bs) = bs"
proof -
  have "length bs \<le> ((length bs + CHUNK_SIZE - 1) div CHUNK_SIZE) * CHUNK_SIZE"
    by (rule ceil_times_ge) (simp add: CHUNK_SIZE_def)
  then show ?thesis by (simp add: bookmark_chunks_alt concat_takes)
qed

lemma bookmark_chunks_length:
  "length (bookmark_chunks bs) = (length bs + 9) div 10"
  by (simp add: bookmark_chunks_alt CHUNK_SIZE_def)

lemma bookmark_chunks_nth:
  assumes "j < length (bookmark_chunks bs)"
  shows "bookmark_chunks bs ! j = take 10 (drop (10 * j) bs)"
    and "0 < length (bookmark_chunks bs ! j)"
    and "length (bookmark_chunks bs ! j) \<le> 10"
    and "Suc j < length (bookmark_chunks bs) \<Longrightarrow> length (bookmark_chunks bs ! j) = 10"
proof -
  from assms have j: "j < (length bs + 9) div 10" by (simp add: bookmark_chunks_length)
  then have u: "[0 ..< (length bs + 9) div 10] ! j = j" by simp
  have alt: "bookmark_chunks bs =
      map (\<lambda>j. take 10 (drop (j * 10) bs)) [0 ..< (length bs + 9) div 10]"
    by (simp add: bookmark_chunks_alt CHUNK_SIZE_def add.commute)
  have "bookmark_chunks bs ! j =
        (\<lambda>j. take 10 (drop (j * 10) bs)) ([0 ..< (length bs + 9) div 10] ! j)"
    unfolding alt using j by (intro nth_map) simp
  then show n: "bookmark_chunks bs ! j = take 10 (drop (10 * j) bs)"
    by (simp only: u mult.commute)
  from j have "10 * j < length bs" by linarith
  then show "0 < length (bookmark_chunks bs ! j)" by (simp add: n)
  show "length (bookmark_chunks bs ! j) \<le> 10" by (simp add: n)
  assume "Suc j < length (bookmark_chunks bs)"
  then have "Suc j < (length bs + 9) div 10" by (simp add: bookmark_chunks_length)
  then have "10 * j + 10 \<le> length bs" by linarith
  then show "length (bookmark_chunks bs ! j) = 10" by (simp add: n)
qed

section \<open>Properties of the dispatcher and of the retry loop\<close>

lemma wait_bounds: "4 \<le> wait_exponential 1 4 10 n \<and> wait_exponential 1 4 10 n \<le> 10"
  by (simp add: wait_exponential_def)

lemma process_attempts_step:
  "n < 3 \<Longrightarrow> process_attempts svc p n st =
     (case svc (length (sent st)) p of
        Inr s \<Rightarrow> (Inr s, st\<lparr>sent := sent st @ [p]\<rparr>)
      | Inl e \<Rightarrow> process_attempts svc p (Suc n)
          (st\<lparr>sent := sent st @ [p], sleeps := sleeps st @ [wait_exponential 1 4 10 n]\<rparr>))"
  by (subst process_attempts.simps) (simp add: stop_after_attempt_def Let_def split: sum.splits)

lemma process_attempts_last:
  "3 \<le> n \<Longrightarrow> process_attempts svc p n st =
     (case svc (length (sent st)) p of
        Inr s \<Rightarrow> (Inr s, st\<lparr>sent := sent st @ [p]\<rparr>)
      | Inl e \<Rightarrow> (Inl (RetryError e), st\<lparr>sent := sent st @ [p]\<rparr>))"
  by (subst process_attempts.simps) (simp add: stop_after_attempt_def Let_def split: sum.splits)

lemma process_unroll:
  "process svc p st =
     (case svc (length (sent st)) p of
        Inr s \<Rightarrow> (Inr s, st\<lparr>sent := sent st @ [p]\<rparr>)
      | Inl e1 \<Rightarrow>
          (case svc (length (sent st) + 1) p of
             Inr s \<Rightarrow> (Inr s, st\<lparr>sent := sent st @ [p, p], sleeps := sleeps st @ [4]\<rparr>)
           | Inl e2 \<Rightarrow>
               (case svc (length (sent st) + 2) p of
                  Inr s \<Rightarrow> (Inr s, st\<lparr>sent := sent st @ [p, p, p], sleeps := sleeps st @ [4, 4]\<rparr>)
                | Inl e3 \<Rightarrow>
                    (Inl (RetryError e3),
                     st\<lparr>sent := sent st @ [p, p, p], sleeps := sleeps st @ [4, 4]\<rparr>))))"
  by (simp add: process_def process_attempts_step process_attempts_last
      wait_exponential_def split: sum.splits)

lemma process_sent:
  "\<exists>k. 1 \<le> k \<and> k \<le> 3 \<and> sent (snd (process svc p st)) = sent st @ replicate k p
       \<and> sleeps (snd (process svc p st)) = sleeps st @ replicate (k - 1) 4"
proof -
  have r1: "[p] = replicate 1 p" by simp
  have r2: "[p, p] = replicate 2 p" by (simp add: numeral_2_eq_2)
  have r3: "[p, p, p] = replicate 3 p" by (simp add: numeral_3_eq_3)
  have s1: "[4::nat] = replicate (2 - 1) 4" by simp
  have s2: "[4::nat, 4] = replicate (3 - 1) 4" by (simp add: numeral_2_eq_2)
  show ?thesis
  proof (cases "svc (length (sent st)) p")
    case (Inr s)
    then have "sent (snd (process svc p st)) = sent st @ replicate 1 p
       \<and> sleeps (snd (process svc p st)) = sleeps st @ replicate (1 - 1) 4"
      by (simp add: process_unroll)
    then show ?thesis by (intro exI [of _ 1]) simp
  next
    case e1: (Inl e1)
    show ?thesis
    proof (cases "svc (length (sent st) + 1) p")
      case (Inr s)
      with e1 have "sent (snd (process svc p st)) = sent st @ replicate 2 p
         \<and> sleeps (snd (process svc p st)) = sleeps st @ replicate (2 - 1) 4"
        by (simp add: process_unroll r2)
      then show ?thesis by (intro exI [of _ 2]) simp
    next
      case e2: (Inl e2)
      with e1 have "sent (snd (process svc p st)) = sent st @ replicate 3 p
         \<and> sleeps (snd (process svc p st)) = sleeps st @ replicate (3 - 1) 4"
        unfolding r3 [symmetric] s2 [symmetric]
        by (simp add: process_unroll split: sum.splits)
      then show ?thesis by (intro exI [of _ 3]) simp
    qed
  qed
qed

lemma attempt_chunk_io: "snd (attempt_chunk loads svc p st) = snd (process svc p st)"
  by (simp add: attempt_chunk_def split: prod.splits sum.splits)

lemma retry_loop_step:
  "retry_count < 3 \<Longrightarrow> retry_loop loads svc cn p retry_count st =
     (case attempt_chunk loads svc p (io st) of
        (Inr c, s1) \<Rightarrow> st\<lparr>all_categories := merge_categories (all_categories st) c, io := s1\<rparr>
      | (Inl e, s1) \<Rightarrow>
          retry_loop loads svc cn p (Suc retry_count)
            (if 3 \<le> Suc retry_count
             then st\<lparr>failed_chunks := failed_chunks st @ [cn], io := s1\<rparr>
             else st\<lparr>io := s1\<rparr>))"
  by (subst retry_loop.simps) (simp add: max_retries_def Let_def split: prod.splits sum.splits)

lemma retry_loop_done: "3 \<le> retry_count \<Longrightarrow> retry_loop loads svc cn p retry_count st = st"
  by (subst retry_loop.simps) (simp add: max_retries_def)

lemma retry_loop_unroll:
  "retry_loop loads svc cn p 0 st =
     (case attempt_chunk loads svc p (io st) of
        (Inr c, s1) \<Rightarrow> st\<lparr>all_categories := merge_categories (all_categories st) c, io := s1\<rparr>
      | (Inl e1, s1) \<Rightarrow>
          (case attempt_chunk loads svc p s1 of
             (Inr c, s2) \<Rightarrow> st\<lparr>all_categories := merge_categories (all_categories st) c, io := s2\<rparr>
           | (Inl e2, s2) \<Rightarrow>
               (case attempt_chunk loads svc p s2 of
                  (Inr c, s3) \<Rightarrow>
                    st\<lparr>all_categories := merge_categories (all_categories st) c, io := s3\<rparr>
                | (Inl e3, s3) \<Rightarrow> st\<lparr>failed_chunks := failed_chunks st @ [cn], io := s3\<rparr>)))"
  by (simp add: retry_loop_step retry_loop_done split: prod.splits sum.splits)

lemma retry_loop_outcome:
  "retry_loop loads svc cn p 0 st =
     (case chunk_outcome loads svc p (io st) of
        (Some c, s) \<Rightarrow> st\<lparr>all_categories := merge_categories (all_categories st) c, io := s\<rparr>
      | (None, s) \<Rightarrow> st\<lparr>failed_chunks := failed_chunks st @ [cn], io := s\<rparr>)"
  by (simp add: retry_loop_unroll chunk_outcome_def split: prod.splits sum.splits)

lemma attempt_grows:
  obtains k j where "1 \<le> k" "k \<le> 3" "j \<le> 2"
    "sent (snd (attempt_chunk loads svc p st)) = sent st @ replicate k p"
    "sleeps (snd (attempt_chunk loads svc p st)) = sleeps st @ replicate j 4"
proof -
  obtain k where k: "1 \<le> k" "k \<le> 3"
    "sent (snd (process svc p st)) = sent st @ replicate k p"
    "sleeps (snd (process svc p st)) = sleeps st @ replicate (k - 1) 4"
    using process_sent [of svc p st] by blast
  have "k - 1 \<le> 2" using k(2) by simp
  with k that [of k "k - 1"] show ?thesis by (simp add: attempt_chunk_io)
qed

lemma chunk_outcome_grows:
  "\<exists>k j. 1 \<le> k \<and> k \<le> 9 \<and> j \<le> 6
     \<and> sent (snd (chunk_outcome loads svc p st)) = sent st @ replicate k p
     \<and> sleeps (snd (chunk_outcome loads svc p st)) = sleeps st @ replicate j 4"
proof -
  obtain r1 s1 where a1: "attempt_chunk loads svc p st = (r1, s1)" by fastforce
  obtain r2 s2 where a2: "attempt_chunk loads svc p s1 = (r2, s2)" by fastforce
  obtain r3 s3 where a3: "attempt_chunk loads svc p s2 = (r3, s3)" by fastforce
  obtain k1 j1 where k1: "1 \<le> k1" "k1 \<le> 3" "j1 \<le> 2" "sent s1 = sent st @ replicate k1 p"
      "sleeps s1 = sleeps st @ replicate j1 4"
    using attempt_grows [of loads svc p st] a1 by auto
  obtain k2 j2 where k2: "1 \<le> k2" "k2 \<le> 3" "j2 \<le> 2" "sent s2 = sent s1 @ replicate k2 p"
      "sleeps s2 = sleeps s1 @ replicate j2 4"
    using attempt_grows [of loads svc p s1] a2 by auto
  obtain k3 j3 where k3: "1 \<le> k3" "k3 \<le> 3" "j3 \<le> 2" "sent s3 = sent s2 @ replicate k3 p"
      "sleeps s3 = sleeps s2 @ replicate j3 4"
    using attempt_grows [of loads svc p s2] a3 by auto
  have g2: "sent s2 = sent st @ replicate (k1 + k2) p
      \<and> sleeps s2 = sleeps st @ replicate (j1 + j2) 4"
    using k1 k2 by (simp add: replicate_add)
  have g3: "sent s3 = sent st @ replicate (k1 + k2 + k3) p
      \<and> sleeps s3 = sleeps st @ replicate (j1 + j2 + j3) 4"
    using g2 k3 by (simp add: replicate_add)
  have "snd (chunk_outcome loads svc p st) = s1 \<or> snd (chunk_outcome loads svc p st) = s2
      \<or> snd (chunk_outcome loads svc p st) = s3"
    by (simp add: chunk_outcome_def a1 a2 a3 split: sum.splits)
  then consider (1) "snd (chunk_outcome loads svc p st) = s1"
    | (2) "snd (chunk_outcome loads svc p st) = s2"
    | (3) "snd (chunk_outcome loads svc p st) = s3" by blast
  then show ?thesis
  proof cases
    case 1
    show ?thesis
      by (rule exI [of _ k1], rule exI [of _ j1]) (use 1 k1 in simp)
  next
    case 2
    show ?thesis
      by (rule exI [of _ "k1 + k2"], rule exI [of _ "j1 + j2"]) (use 2 g2 k1 k2 in simp)
  next
    case 3
    show ?thesis
      by (rule exI [of _ "k1 + k2 + k3"], rule exI [of _ "j1 + j2 + j3"])
        (use 3 g3 k1 k2 k3 in simp)
  qed
qed

lemma retry_loop_io: "io (retry_loop loads svc cn p 0 st) = snd (chunk_outcome loads svc p (io st))"
  by (simp add: retry_loop_outcome split: prod.splits option.splits)

lemma retry_loop_sent_set:
  "set (sent (io (retry_loop loads svc cn p 0 st))) = insert p (set (sent (io st)))"
proof -
  obtain k where "1 \<le> k"
    "sent (snd (chunk_outcome loads svc p (io st))) = sent (io st) @ replicate k p"
    using chunk_outcome_grows [of loads svc p "io st"] by blast
  then show ?thesis by (auto simp add: retry_loop_io)
qed

section \<open>The run as a sequence of chunk outcomes\<close>

lemma chunk_outcomes_length: "length (chunk_outcomes loads svc ps s) = length ps"
  by (induction ps arbitrary: s) (simp_all split: prod.splits)

lemma fold_retry_outcomes:
  "failed_chunks (fold (\<lambda>jp. retry_loop loads svc (fst jp + 1) (snd jp) 0) (enumerate n ps) st)
     = failed_chunks st @ map (\<lambda>jo. fst jo + 1)
         (filter (\<lambda>jo. snd jo = None) (enumerate n (chunk_outcomes loads svc ps (io st))))
   \<and> all_categories (fold (\<lambda>jp. retry_loop loads svc (fst jp + 1) (snd jp) 0) (enumerate n ps) st)
     = foldl merge_categories (all_categories st) (successes (chunk_outcomes loads svc ps (io st)))
   \<and> set (sent (io (fold (\<lambda>jp. retry_loop loads svc (fst jp + 1) (snd jp) 0) (enumerate n ps) st)))
     = set (sent (io st)) \<union> set ps"
proof (induction ps arbitrary: n st)
  case Nil
  then show ?case by (simp add: successes_def)
next
  case (Cons p ps)
  obtain r s1 where co: "chunk_outcome loads svc p (io st) = (r, s1)" by fastforce
  let ?st1 = "retry_loop loads svc (n + 1) p 0 st"
  have io1: "io ?st1 = s1" by (simp add: retry_loop_io co)
  have sent1: "set (sent (io ?st1)) = insert p (set (sent (io st)))"
    by (rule retry_loop_sent_set)
  have f1: "failed_chunks ?st1 = failed_chunks st @ (if r = None then [n + 1] else [])"
    by (simp add: retry_loop_outcome co split: option.splits)
  have a1: "all_categories ?st1 =
      foldl merge_categories (all_categories st) (case r of None \<Rightarrow> [] | Some c \<Rightarrow> [c])"
    by (simp add: retry_loop_outcome co split: option.splits)
  note ih = Cons.IH [of "Suc n" ?st1, unfolded io1]
  show ?case
    using ih sent1 f1 a1 io1
    by (simp add: co successes_def)
qed

lemma py_range_chunks:
  "py_range 0 (length bs) CHUNK_SIZE = map (\<lambda>j. j * 10) [0 ..< (length bs + 9) div 10]"
  by (simp add: py_range_def CHUNK_SIZE_def add.commute)

lemma for_body_index:
  assumes "j < (length bs + 9) div 10"
  shows "for_body loads svc bs (j * 10) st =
         retry_loop loads svc (j + 1) (chunk_prompt (bookmark_chunks bs ! j)) 0 st"
proof -
  have "j < length (bookmark_chunks bs)" using assms by (simp add: bookmark_chunks_length)
  then have "bookmark_chunks bs ! j = take 10 (drop (10 * j) bs)"
    by (rule bookmark_chunks_nth(1))
  then show ?thesis
    by (simp add: for_body_def slice_def CHUNK_SIZE_def Let_def mult.commute)
qed

lemma run_chunks_enumerate:
  "run_chunks loads svc bs st0 =
     fold (\<lambda>jp. retry_loop loads svc (fst jp + 1) (snd jp) 0)
       (enumerate 0 (map chunk_prompt (bookmark_chunks bs)))
       \<lparr>all_categories = [], failed_chunks = [], io = st0\<rparr>"
proof -
  let ?m = "(length bs + 9) div 10"
  let ?ps = "map chunk_prompt (bookmark_chunks bs)"
  let ?init = "\<lparr>all_categories = [], failed_chunks = [], io = st0\<rparr>"
  have len: "length ?ps = ?m" by (simp add: bookmark_chunks_length)
  have en: "enumerate 0 ?ps = map (\<lambda>j. (j, ?ps ! j)) [0 ..< ?m]"
    unfolding enumerate_eq_zip len [symmetric]
    by (intro nth_equalityI) simp_all
  have "run_chunks loads svc bs st0 = fold (\<lambda>j. for_body loads svc bs (j * 10)) [0 ..< ?m] ?init"
    by (simp add: run_chunks_def py_range_chunks fold_map comp_def)
  also have "\<dots> = fold (\<lambda>j. retry_loop loads svc (j + 1) (?ps ! j) 0) [0 ..< ?m] ?init"
  proof (intro fold_cong refl)
    fix j assume "j \<in> set [0 ..< ?m]"
    then have j: "j < ?m" by simp
    then have "?ps ! j = chunk_prompt (bookmark_chunks bs ! j)"
      by (simp add: bookmark_chunks_length)
    then show "for_body loads svc bs (j * 10) = retry_loop loads svc (j + 1) (?ps ! j) 0"
      using for_body_index [OF j] by (intro ext) simp
  qed
  also have "\<dots> = fold (\<lambda>jp. retry_loop loads svc (fst jp + 1) (snd jp) 0) (enumerate 0 ?ps) ?init"
    by (simp add: en fold_map comp_def)
  finally show ?thesis .
qed

lemma run_chunks_outcomes:
  "failed_chunks (run_chunks loads svc bs st0)
     = permanently_failed (chunk_outcomes loads svc (map chunk_prompt (bookmark_chunks bs)) st0)"
  "all_categories (run_chunks loads svc bs st0)
     = foldl merge_categories []
         (successes (chunk_outcomes loads svc (map chunk_prompt (bookmark_chunks bs)) st0))"
  "set (sent (io (run_chunks loads svc bs st0)))
     = set (sent st0) \<union> chunk_prompt ` set (bookmark_chunks bs)"
  using fold_retry_outcomes [of loads svc 0 "map chunk_prompt (bookmark_chunks bs)"
      "\<lparr>all_categories = [], failed_chunks = [], io = st0\<rparr>"]
  by (simp_all add: run_chunks_enumerate permanently_failed_def)

section \<open>Properties of the response validator\<close>

lemma startswith_append:
  "startswith r (p @ q) \<longleftrightarrow> startswith r p \<and> startswith (drop (length p) r) q"
proof -
  have t: "take (length p + length q) r = take (length p) r @ take (length q) (drop (length p) r)"
    by (rule take_add)
  show ?thesis
  proof
    assume "startswith r (p @ q)"
    then have a: "take (length p + length q) r = p @ q" by (simp add: startswith_def)
    then have "length (take (length p + length q) r) = length p + length q" by simp
    then have "length p + length q \<le> length r" by simp
    then have "length (take (length p) r) = length p" by simp
    moreover have "take (length p) r @ take (length q) (drop (length p) r) = p @ q"
      using a t by simp
    ultimately have "take (length p) r = p \<and> take (length q) (drop (length p) r) = q"
      using append_eq_append_conv [of "take (length p) r" p "take (length q) (drop (length p) r)" q]
      by blast
    then show "startswith r p \<and> startswith (drop (length p) r) q"
      by (simp add: startswith_def)
  next
    assume "startswith r p \<and> startswith (drop (length p) r) q"
    then show "startswith r (p @ q)" using t by (simp add: startswith_def)
  qed
qed

lemma startswith_json_plain:
  "startswith r ''```json```'' \<longleftrightarrow> startswith r ''```json'' \<and> startswith (drop 7 r) ''```''"
  using startswith_append [of r "''```json''" "''```''"] by (simp add: eval_nat_numeral)

lemma startswith_json_is_plain: "startswith r ''```json'' \<Longrightarrow> startswith r ''```''"
  using startswith_append [of r "''```''" "''json''"] by simp

lemma leading_marker_cases:
  "leading_marker r =
     (if startswith r ''```json'' then (if startswith (drop 7 r) ''```'' then ''```json```'' else ''```json'')
      else if startswith r ''```'' then ''```'' else [])"
  by (simp add: leading_marker_def startswith_json_plain)

lemma clean_response_unfenced: "clean_response response = strip (unfenced (strip response))"
  by (simp add: clean_response_def unfenced_def trailing_marker_def leading_marker_cases Let_def
      eval_nat_numeral)

lemma startswith_drop: "startswith r p \<Longrightarrow> r = p @ drop (length p) r"
  unfolding startswith_def by (metis append_take_drop_id)

lemma leading_marker_prefix: "r = leading_marker r @ drop (length (leading_marker r)) r"
proof -
  have "startswith r (leading_marker r)"
    by (simp add: leading_marker_def) (simp add: startswith_def)
  then show ?thesis by (rule startswith_drop)
qed

lemma endswith_take: "endswith r p \<Longrightarrow> r = take (length r - length p) r @ p"
  unfolding endswith_def by (metis append_take_drop_id)

lemma trailing_marker_suffix: "r = take (length r - length (trailing_marker r)) r @ trailing_marker r"
proof (cases "endswith r ''```''")
  case True
  then have "r = take (length r - length ''```'') r @ ''```''" by (rule endswith_take)
  with True show ?thesis by (simp add: trailing_marker_def)
next
  case False
  then show ?thesis by (simp add: trailing_marker_def)
qed

lemma unfenced_split:
  "r = leading_marker r @ unfenced r @ trailing_marker (drop (length (leading_marker r)) r)"
proof -
  let ?rest = "drop (length (leading_marker r)) r"
  have "?rest = unfenced r @ trailing_marker ?rest"
    using trailing_marker_suffix [of ?rest] by (simp add: unfenced_def Let_def)
  then show ?thesis using leading_marker_prefix [of r] by metis
qed

lemma validate_bookmarks_ok: "list_all item_ok bs \<Longrightarrow> validate_bookmarks c bs = None"
  by (induction bs) (auto simp add: item_ok_def split: json.splits)

lemma validate_bookmarks_bad:
  "\<not> list_all item_ok bs \<Longrightarrow>
   \<exists>b. b \<in> set bs \<and> \<not> item_ok b \<and> validate_bookmarks c bs = Some (item_problem c b)"
proof (induction bs)
  case Nil
  then show ?case by simp
next
  case (Cons a bs)
  show ?case
  proof (cases "item_ok a")
    case True
    with Cons.prems have "\<not> list_all item_ok bs" by simp
    then obtain b where "b \<in> set bs" "\<not> item_ok b"
      "validate_bookmarks c bs = Some (item_problem c b)"
      using Cons.IH by blast
    with True show ?thesis
      by (intro exI [of _ b]) (auto simp add: item_ok_def split: json.splits)
  next
    case False
    then have "validate_bookmarks c (a # bs) = Some (item_problem c a)"
      by (auto simp add: item_ok_def item_problem_def split: json.splits)
    with False show ?thesis by (intro exI [of _ a]) simp
  qed
qed

lemma validate_categories_ok:
  "list_all category_ok cats \<Longrightarrow>
   validate_categories cats = Inr (map (\<lambda>cv. (fst cv, array_items (snd cv))) cats)"
proof (induction cats)
  case Nil
  then show ?case by simp
next
  case (Cons cv cats)
  obtain c v where cv: "cv = (c, v)" by (cases cv)
  from Cons.prems cv obtain bs where v: "v = JArray bs" and ok: "list_all item_ok bs"
    by (cases v) (simp_all add: category_ok_def)
  from Cons have "validate_categories cats = Inr (map (\<lambda>cv. (fst cv, array_items (snd cv))) cats)"
    by simp
  then show ?case by (simp add: cv v validate_bookmarks_ok [OF ok])
qed

lemma validate_categories_bad:
  "\<not> list_all category_ok cats \<Longrightarrow>
   (\<exists>c v. (c, v) \<in> set cats \<and> \<not> is_array v \<and> validate_categories cats = Inl (NotList c))
   \<or> (\<exists>c bs b. (c, JArray bs) \<in> set cats \<and> b \<in> set bs \<and> \<not> item_ok b
         \<and> validate_categories cats = Inl (item_problem c b))"
proof (induction cats)
  case Nil
  then show ?case by simp
next
  case (Cons cv cats)
  obtain c v where cv: "cv = (c, v)" by (cases cv)
  show ?case
  proof (cases "is_array v")
    case False
    then have "validate_categories (cv # cats) = Inl (NotList c)"
      by (cases v) (simp_all add: cv)
    with False cv show ?thesis
      by (intro disjI1 exI [of _ c] exI [of _ v]) simp
  next
    case True
    then obtain bs where v: "v = JArray bs" by (cases v) simp_all
    show ?thesis
    proof (cases "list_all item_ok bs")
      case False
      then obtain b where b: "b \<in> set bs" "\<not> item_ok b"
        "validate_bookmarks c bs = Some (item_problem c b)"
        using validate_bookmarks_bad by blast
      then have "validate_categories (cv # cats) = Inl (item_problem c b)"
        by (simp add: cv v)
      with b cv v show ?thesis
        by (intro disjI2 exI [of _ c] exI [of _ bs] exI [of _ b]) simp
    next
      case ok: True
      then have "category_ok cv" by (simp add: category_ok_def cv v)
      with Cons.prems have "\<not> list_all category_ok cats" by simp
      from Cons.IH [OF this] show ?thesis
      proof
        assume "\<exists>c' v'. (c', v') \<in> set cats \<and> \<not> is_array v' \<and> validate_categories cats = Inl (NotList c')"
        then obtain c' v' where "(c', v') \<in> set cats" "\<not> is_array v'"
          "validate_categories cats = Inl (NotList c')" by blast
        then show ?thesis
          by (intro disjI1 exI [of _ c'] exI [of _ v'])
            (simp add: cv v validate_bookmarks_ok [OF ok])
      next
        assume "\<exists>c' bs' b. (c', JArray bs') \<in> set cats \<and> b \<in> set bs' \<and> \<not> item_ok b
           \<and> validate_categories cats = Inl (item_problem c' b)"
        then obtain c' bs' b where "(c', JArray bs') \<in> set cats" "b \<in> set bs'" "\<not> item_ok b"
          "validate_categories cats = Inl (item_problem c' b)" by blast
        then show ?thesis
          by (intro disjI2 exI [of _ c'] exI [of _ bs'] exI [of _ b])
            (simp add: cv v validate_bookmarks_ok [OF ok])
      qed
    qed
  qed
qed

text \<open>
  Claim C7 as the specification has it (at most one leading fence is removed, with or
  without a language tag) does not hold.  The two tests for a leading fence are
  independent, so a text that starts with the json fence followed by a plain fence
  loses both, and its parse succeeds although what is left after removing one fence
  is not JSON.  A fence with another language tag loses its backticks only.
\<close>

theorem parse_response_two_fences_counterexample:
  "clean_response ''```json```{}'' = ''{}''
   \<and> parse_response loads_table ''```json```{}'' = Inr []
   \<and> loads_table ''```{}'' = JSONDecodeError
   \<and> clean_response ''```python{}'' = ''python{}''"
  by (simp add: parse_response_def clean_response_def strip_def startswith_def endswith_def
      py_isspace_def loads_table_def text_A_empty_def text_missing_url_def text_empty_url_def
      dq_def validate_data_def)

text \<open>
  Claim C7, amended.  The text that is decoded is the response with white space
  trimmed, its leading marker and its trailing marker taken off, and white space
  trimmed again.  The leading marker is the longest of: the json fence followed at
  once by the plain fence (both are removed), the json fence, the plain fence,
  nothing; no other language tag is removed.  The trailing marker is one plain fence
  if what remains ends with one.  A text the decoder rejects as not JSON after that
  fails with the invalid-JSON error; a text it decodes is passed to the checks; and
  the fenced example of the specification parses to the map with the one empty
  category \<open>A\<close> whenever the decoder reads its inner text as that object.
\<close>

theorem parse_response_fences:
  "clean_response response = strip (unfenced (strip response))
   \<and> strip response =
       leading_marker (strip response) @ unfenced (strip response)
         @ trailing_marker (drop (length (leading_marker (strip response))) (strip response))
   \<and> (loads (clean_response response) = JSONDecodeError
        \<longrightarrow> parse_response loads response = Inl InvalidJSON)
   \<and> (loads (clean_response response) = Loaded d
        \<longrightarrow> parse_response loads response =
              (case validate_data d of
                 Inl problem \<Rightarrow> Inl (FailedToParse problem)
               | Inr m \<Rightarrow> Inr m))
   \<and> (loads text_A_empty = Loaded (JObject [(''A'', JArray [])])
        \<longrightarrow> parse_response loads fenced_A_empty = Inr [(''A'', [])])"
proof -
  have a: "clean_response response = strip (unfenced (strip response))"
    by (rule clean_response_unfenced)
  have b: "strip response =
       leading_marker (strip response) @ unfenced (strip response)
         @ trailing_marker (drop (length (leading_marker (strip response))) (strip response))"
    by (rule unfenced_split)
  have c: "loads (clean_response response) = JSONDecodeError
        \<longrightarrow> parse_response loads response = Inl InvalidJSON"
    by (simp add: parse_response_def)
  have d: "loads (clean_response response) = Loaded d
        \<longrightarrow> parse_response loads response =
              (case validate_data d of
                 Inl problem \<Rightarrow> Inl (FailedToParse problem)
               | Inr m \<Rightarrow> Inr m)"
    by (simp add: parse_response_def)
  have "clean_response fenced_A_empty = text_A_empty"
    by (simp add: clean_response_def fenced_A_empty_def text_A_empty_def dq_def strip_def
        startswith_def endswith_def py_isspace_def)
  then have e: "loads text_A_empty = Loaded (JObject [(''A'', JArray [])])
        \<longrightarrow> parse_response loads fenced_A_empty = Inr [(''A'', [])]"
    by (simp add: parse_response_def validate_data_def)
  from a b c d e show ?thesis by blast
qed

lemma loads_table_A: "loads_table text_A_empty = Loaded (JObject [(''A'', JArray [])])"
  by (simp add: loads_table_def)

lemma loads_table_not_json: "loads_table (clean_response ''not json'') = JSONDecodeError"
  by code_simp

lemma markers_examples:
  "leading_marker ''```json```{}'' = ''```json```''"
  "unfenced ''```json```{}'' = ''{}''"
  "leading_marker ''```python{}```'' = ''```''"
  "unfenced ''```python{}```'' = ''python{}''"
  "strip ''```json```{}'' = ''```json```{}''"
  "strip ''```python{}```'' = ''```python{}```''"
  "strip ''{}'' = ''{}''"
  "strip ''python{}'' = ''python{}''"
  by code_simp+

theorem parse_response_fences_witness:
  "clean_response ''```json```{}'' = ''{}''
   \<and> clean_response ''```python{}```'' = ''python{}''
   \<and> parse_response loads_table fenced_A_empty = Inr [(''A'', [])]
   \<and> parse_response loads_table ''not json'' = Inl InvalidJSON"
  using parse_response_fences [of "''```json```{}''"]
    parse_response_fences [of "''```python{}```''"]
    parse_response_fences [of "''not json''" loads_table]
    loads_table_A loads_table_not_json
  by (simp add: markers_examples)

text \<open>
  Claim C5 as the specification has it (an item with an empty url is rejected) does
  not hold: the checks look for the keys only, and an item whose url is the empty
  string is accepted.
\<close>

theorem parse_response_empty_url_counterexample:
  "validate_data (JObject [(''A'', JArray [JObject [(''title'', JString ''x''), (''url'', JString [])]])])
     = Inr [(''A'', [JObject [(''title'', JString ''x''), (''url'', JString [])]])]
   \<and> parse_response loads_table text_empty_url
     = Inr [(''A'', [JObject [(''title'', JString ''x''), (''url'', JString [])]])]"
  by (simp add: parse_response_def clean_response_def strip_def startswith_def endswith_def
      py_isspace_def loads_table_def text_A_empty_def text_missing_url_def text_empty_url_def
      dq_def validate_data_def dict_contains_def)

text \<open>
  Claim C5, amended.  For a response that decodes to a dict: if every category holds
  a list whose items are dicts with a \<^verbatim>\<open>title\<close> key and a \<^verbatim>\<open>url\<close> key (whatever the
  values, an empty url included), the parse succeeds and returns the categories
  unchanged; otherwise it fails with an invalid-response error that names either a
  category whose value is not a list, or a category together with an item of its
  list that is not a dict (\<open>InvalidBookmark\<close>) or lacks one of the two keys
  (\<open>MissingFields\<close>).
\<close>

theorem parse_response_items:
  assumes "loads (clean_response response) = Loaded (JObject cats)"
  shows "(list_all category_ok cats \<longrightarrow>
            parse_response loads response = Inr (map (\<lambda>cv. (fst cv, array_items (snd cv))) cats))
       \<and> (\<not> list_all category_ok cats \<longrightarrow>
            (\<exists>c v. (c, v) \<in> set cats \<and> \<not> is_array v
               \<and> parse_response loads response = Inl (FailedToParse (NotList c)))
          \<or> (\<exists>c bs b. (c, JArray bs) \<in> set cats \<and> b \<in> set bs \<and> \<not> item_ok b
               \<and> parse_response loads response = Inl (FailedToParse (item_problem c b))))"
proof (intro conjI impI)
  assume "list_all category_ok cats"
  then show "parse_response loads response = Inr (map (\<lambda>cv. (fst cv, array_items (snd cv))) cats)"
    using assms by (simp add: parse_response_def validate_data_def validate_categories_ok)
next
  assume "\<not> list_all category_ok cats"
  from validate_categories_bad [OF this]
  show "(\<exists>c v. (c, v) \<in> set cats \<and> \<not> is_array v
               \<and> parse_response loads response = Inl (FailedToParse (NotList c)))
          \<or> (\<exists>c bs b. (c, JArray bs) \<in> set cats \<and> b \<in> set bs \<and> \<not> item_ok b
               \<and> parse_response loads response = Inl (FailedToParse (item_problem c b)))"
  proof
    assume "\<exists>c v. (c, v) \<in> set cats \<and> \<not> is_array v \<and> validate_categories cats = Inl (NotList c)"
    then obtain c v where "(c, v) \<in> set cats" "\<not> is_array v"
      "validate_categories cats = Inl (NotList c)" by blast
    then show ?thesis
      using assms
      by (intro disjI1 exI [of _ c] exI [of _ v]) (simp add: parse_response_def validate_data_def)
  next
    assume "\<exists>c bs b. (c, JArray bs) \<in> set cats \<and> b \<in> set bs \<and> \<not> item_ok b
         \<and> validate_categories cats = Inl (item_problem c b)"
    then obtain c bs b where "(c, JArray bs) \<in> set cats" "b \<in> set bs" "\<not> item_ok b"
      "validate_categories cats = Inl (item_problem c b)" by blast
    then show ?thesis
      using assms
      by (intro disjI2 exI [of _ c] exI [of _ bs] exI [of _ b])
        (simp add: parse_response_def validate_data_def)
  qed
qed

lemma loads_missing_url:
  "loads_table (clean_response text_missing_url)
     = Loaded (JObject [(''A'', JArray [JObject [(''title'', JString ''x'')]])])"
  by (simp add: clean_response_def strip_def startswith_def endswith_def
      py_isspace_def loads_table_def text_A_empty_def text_missing_url_def text_empty_url_def
      dq_def)

lemma loads_empty_url:
  "loads_table (clean_response text_empty_url)
     = Loaded (JObject [(''A'', JArray [JObject [(''title'', JString ''x''), (''url'', JString [])]])])"
  by (simp add: clean_response_def strip_def startswith_def endswith_def
      py_isspace_def loads_table_def text_A_empty_def text_missing_url_def text_empty_url_def
      dq_def)

theorem parse_response_items_witness:
  "parse_response loads_table text_missing_url
     = Inl (FailedToParse (MissingFields ''A'' (JObject [(''title'', JString ''x'')])))
   \<and> parse_response loads_table text_empty_url
     = Inr [(''A'', [JObject [(''title'', JString ''x''), (''url'', JString [])]])]"
  using parse_response_items [of loads_table text_missing_url, OF loads_missing_url]
    parse_response_items [of loads_table text_empty_url, OF loads_empty_url]
  by (simp add: category_ok_def item_ok_def item_problem_def dict_contains_def)

section \<open>Properties of the aggregator\<close>

text \<open>
  Claim C3.  The result of \<^verbatim>\<open>categorize_bookmarks\<close> is determined by the outcomes of
  its chunks, every one of which is processed whatever happened to the chunks before
  it: the list of failed chunks holds exactly the numbers of the chunks whose three
  combined attempts all failed, the aggregate is the merge of the maps of the other
  chunks in order, and the call raises, with that list in the error, exactly when the
  list is not empty and the aggregate is empty; in every other case it returns the
  aggregate.
\<close>

theorem categorize_bookmarks_outcome:
  "fst (categorize_bookmarks loads svc bookmarks st0) =
     (if permanently_failed
           (chunk_outcomes loads svc (map chunk_prompt (bookmark_chunks bookmarks)) st0) \<noteq> []
         \<and> foldl merge_categories []
             (successes (chunk_outcomes loads svc (map chunk_prompt (bookmark_chunks bookmarks)) st0)) = []
      then Inl (CategorizeFailed
             (permanently_failed
                (chunk_outcomes loads svc (map chunk_prompt (bookmark_chunks bookmarks)) st0)))
      else Inr (foldl merge_categories []
             (successes (chunk_outcomes loads svc (map chunk_prompt (bookmark_chunks bookmarks)) st0))))
   \<and> length (chunk_outcomes loads svc (map chunk_prompt (bookmark_chunks bookmarks)) st0)
       = length (bookmark_chunks bookmarks)"
proof (cases "bookmarks = []")
  case True
  then have "bookmark_chunks bookmarks = []"
    by (simp add: bookmark_chunks_def py_range_def CHUNK_SIZE_def)
  with True show ?thesis
    by (simp add: categorize_bookmarks_def permanently_failed_def successes_def)
next
  case False
  then show ?thesis
    by (simp add: categorize_bookmarks_def Let_def run_chunks_outcomes(1,2) chunk_outcomes_length)
qed

lemma outcomes_recovering:
  "chunk_outcomes loads_table svc_recovering (map chunk_prompt (bookmark_chunks bookmarks11)) io_init
     = [None, Some [(''A'', [])]]"
  by code_simp

lemma outcomes_down:
  "chunk_outcomes loads_table svc_down (map chunk_prompt (bookmark_chunks bookmarks11)) io_init
     = [None, None]"
  by code_simp

theorem categorize_bookmarks_outcome_witness:
  "fst (categorize_bookmarks loads_table svc_recovering bookmarks11 io_init) = Inr [(''A'', [])]
   \<and> fst (categorize_bookmarks loads_table svc_down bookmarks11 io_init)
       = Inl (CategorizeFailed [1, 2])"
  using categorize_bookmarks_outcome [of loads_table svc_recovering bookmarks11 io_init]
    categorize_bookmarks_outcome [of loads_table svc_down bookmarks11 io_init]
  by (simp add: outcomes_recovering outcomes_down permanently_failed_def successes_def
      merge_categories_def merge_category_def dict_contains_def dict_get_def)

lemma process_first_answer:
  "svc (length (sent s0)) p = Inr answer \<Longrightarrow> process svc p s0 = (Inr answer, s0\<lparr>sent := sent s0 @ [p]\<rparr>)"
  by (simp add: process_unroll)

lemma attempt_invalid:
  "svc (length (sent s0)) p = Inr answer \<Longrightarrow> parse_response loads answer = Inl e \<Longrightarrow>
   attempt_chunk loads svc p s0 = (Inl e, s0\<lparr>sent := sent s0 @ [p]\<rparr>)"
  by (simp add: attempt_chunk_def process_first_answer)

lemma attempt_empty:
  "svc (length (sent s0)) p = Inr answer \<Longrightarrow> parse_response loads answer = Inr [] \<Longrightarrow>
   attempt_chunk loads svc p s0 = (Inl EmptyResponse, s0\<lparr>sent := sent s0 @ [p]\<rparr>)"
  by (simp add: attempt_chunk_def process_first_answer)

lemma attempt_good:
  "svc (length (sent s0)) p = Inr answer \<Longrightarrow> parse_response loads answer = Inr c \<Longrightarrow> c \<noteq> [] \<Longrightarrow>
   attempt_chunk loads svc p s0 = (Inr c, s0\<lparr>sent := sent s0 @ [p]\<rparr>)"
  by (simp add: attempt_chunk_def process_first_answer)

lemma retry_loop_always_invalid:
  assumes "\<And>n. svc n p = Inr answer" and "parse_response loads answer = Inl e"
  shows "retry_loop loads svc cn p 0 st =
     st\<lparr>failed_chunks := failed_chunks st @ [cn],
        io := (io st)\<lparr>sent := sent (io st) @ [p, p, p]\<rparr>\<rparr>"
proof -
  have a: "attempt_chunk loads svc p s = (Inl e, s\<lparr>sent := sent s @ [p]\<rparr>)" for s
    by (rule attempt_invalid) (rule assms)+
  show ?thesis by (simp add: retry_loop_unroll a)
qed

lemma retry_loop_always_empty:
  assumes "\<And>n. svc n p = Inr answer" and "parse_response loads answer = Inr []"
  shows "retry_loop loads svc cn p 0 st =
     st\<lparr>failed_chunks := failed_chunks st @ [cn],
        io := (io st)\<lparr>sent := sent (io st) @ [p, p, p]\<rparr>\<rparr>"
proof -
  have a: "attempt_chunk loads svc p s = (Inl EmptyResponse, s\<lparr>sent := sent s @ [p]\<rparr>)" for s
    by (rule attempt_empty) (rule assms)+
  show ?thesis by (simp add: retry_loop_unroll a)
qed

lemma retry_loop_empty_then_good:
  assumes "svc (length (sent (io st))) p = Inr answer" and "parse_response loads answer = Inr []"
    and "svc (length (sent (io st)) + 1) p = Inr text2" and "parse_response loads text2 = Inr c"
    and "c \<noteq> []"
  shows "retry_loop loads svc cn p 0 st =
     st\<lparr>all_categories := merge_categories (all_categories st) c,
        io := (io st)\<lparr>sent := sent (io st) @ [p, p]\<rparr>\<rparr>"
proof -
  let ?s1 = "(io st)\<lparr>sent := sent (io st) @ [p]\<rparr>"
  have a1: "attempt_chunk loads svc p (io st) = (Inl EmptyResponse, ?s1)"
    using assms(1,2) by (rule attempt_empty)
  have "svc (length (sent ?s1)) p = Inr text2" using assms(3) by simp
  then have a2: "attempt_chunk loads svc p ?s1 = (Inr c, ?s1\<lparr>sent := sent ?s1 @ [p]\<rparr>)"
    using assms(4,5) by (rule attempt_good)
  show ?thesis by (simp add: retry_loop_unroll a1 a2)
qed

text \<open>
  Claim C6.  One call of \<^verbatim>\<open>_process\<close> sends between one and three requests, with a
  pause of 4 between two attempts; every pause the policy can compute lies between 4
  and 10.  The retry loop of one chunk sends between one and nine requests in all and
  pauses at most six times.  An answer is returned by \<^verbatim>\<open>_process\<close> after the single
  request that produced it, whatever its text; when every answer fails the parse, the
  loop makes three combined attempts of one request each and records the chunk as
  failed.
\<close>

theorem retry_budget:
  "(\<exists>k. 1 \<le> k \<and> k \<le> 3
        \<and> sent (snd (process svc p s0)) = sent s0 @ replicate k p
        \<and> sleeps (snd (process svc p s0)) = sleeps s0 @ replicate (k - 1) 4)
   \<and> 4 \<le> wait_exponential 1 4 10 n \<and> wait_exponential 1 4 10 n \<le> 10
   \<and> (\<exists>k j. 1 \<le> k \<and> k \<le> 9 \<and> j \<le> 6
        \<and> sent (io (retry_loop loads svc cn p 0 st)) = sent (io st) @ replicate k p
        \<and> sleeps (io (retry_loop loads svc cn p 0 st)) = sleeps (io st) @ replicate j 4)
   \<and> (svc (length (sent s0)) p = Inr answer
        \<longrightarrow> process svc p s0 = (Inr answer, s0\<lparr>sent := sent s0 @ [p]\<rparr>))
   \<and> ((\<forall>n. svc n p = Inr answer) \<and> parse_response loads answer = Inl e
        \<longrightarrow> retry_loop loads svc cn p 0 st =
              st\<lparr>failed_chunks := failed_chunks st @ [cn],
                 io := (io st)\<lparr>sent := sent (io st) @ [p, p, p]\<rparr>\<rparr>)"
proof -
  have a: "\<exists>k. 1 \<le> k \<and> k \<le> 3
        \<and> sent (snd (process svc p s0)) = sent s0 @ replicate k p
        \<and> sleeps (snd (process svc p s0)) = sleeps s0 @ replicate (k - 1) 4"
    by (rule process_sent)
  have b: "4 \<le> wait_exponential 1 4 10 n \<and> wait_exponential 1 4 10 n \<le> 10"
    by (rule wait_bounds)
  have c: "\<exists>k j. 1 \<le> k \<and> k \<le> 9 \<and> j \<le> 6
        \<and> sent (io (retry_loop loads svc cn p 0 st)) = sent (io st) @ replicate k p
        \<and> sleeps (io (retry_loop loads svc cn p 0 st)) = sleeps (io st) @ replicate j 4"
    using chunk_outcome_grows [of loads svc p "io st"] by (simp add: retry_loop_io)
  have d: "svc (length (sent s0)) p = Inr answer
        \<longrightarrow> process svc p s0 = (Inr answer, s0\<lparr>sent := sent s0 @ [p]\<rparr>)"
    by (simp add: process_first_answer)
  have e: "(\<forall>n. svc n p = Inr answer) \<and> parse_response loads answer = Inl e
        \<longrightarrow> retry_loop loads svc cn p 0 st =
              st\<lparr>failed_chunks := failed_chunks st @ [cn],
                 io := (io st)\<lparr>sent := sent (io st) @ [p, p, p]\<rparr>\<rparr>"
    using retry_loop_always_invalid [of svc p answer loads e cn st] by blast
  from a b c d e show ?thesis by blast
qed

lemma parse_not_json: "parse_response loads_table ''not json'' = Inl InvalidJSON"
  by code_simp

lemma parse_empty_object: "parse_response loads_table ''{}'' = Inr []"
  by code_simp

lemma parse_A_empty: "parse_response loads_table text_A_empty = Inr [(''A'', [])]"
  by code_simp

lemma down_nine:
  "sent (io (retry_loop loads_table svc_down 1 (Prompt []) 0 run_init)) = replicate 9 (Prompt [])"
  by code_simp

theorem retry_budget_witness:
  "process svc_not_json (Prompt []) io_init = (Inr ''not json'', io_init\<lparr>sent := [Prompt []]\<rparr>)
   \<and> retry_loop loads_table svc_not_json 1 (Prompt []) 0 run_init =
       run_init\<lparr>failed_chunks := [1], io := io_init\<lparr>sent := [Prompt [], Prompt [], Prompt []]\<rparr>\<rparr>
   \<and> sent (io (retry_loop loads_table svc_down 1 (Prompt []) 0 run_init)) = replicate 9 (Prompt [])"
  using retry_budget [where svc = svc_not_json and p = "Prompt []" and ?s0.0 = io_init
      and loads = loads_table and cn = 1 and st = run_init and answer = "''not json''"
      and e = InvalidJSON]
    parse_not_json down_nine
  by (simp add: svc_not_json_def io_init_def run_init_def)

text \<open>
  Claim C8.  An answer that parses to the empty map makes the attempt fail with the
  empty-response error.  If every answer is of that kind the chunk is recorded as
  failed after three attempts and nothing is merged; if the next answer parses to a
  map that is not empty, the second attempt merges it.
\<close>

theorem empty_map_is_failure:
  assumes "parse_response loads answer = Inr []"
  shows "(svc (length (sent s0)) p = Inr answer
          \<longrightarrow> attempt_chunk loads svc p s0 = (Inl EmptyResponse, s0\<lparr>sent := sent s0 @ [p]\<rparr>))
       \<and> ((\<forall>n. svc n p = Inr answer)
          \<longrightarrow> retry_loop loads svc cn p 0 st =
                st\<lparr>failed_chunks := failed_chunks st @ [cn],
                   io := (io st)\<lparr>sent := sent (io st) @ [p, p, p]\<rparr>\<rparr>)
       \<and> (svc (length (sent (io st))) p = Inr answer
            \<and> svc (length (sent (io st)) + 1) p = Inr answer2
            \<and> parse_response loads answer2 = Inr c \<and> c \<noteq> []
          \<longrightarrow> retry_loop loads svc cn p 0 st =
                st\<lparr>all_categories := merge_categories (all_categories st) c,
                   io := (io st)\<lparr>sent := sent (io st) @ [p, p]\<rparr>\<rparr>)"
proof (intro conjI impI)
  assume "svc (length (sent s0)) p = Inr answer"
  then show "attempt_chunk loads svc p s0 = (Inl EmptyResponse, s0\<lparr>sent := sent s0 @ [p]\<rparr>)"
    using assms by (rule attempt_empty)
next
  assume "\<forall>n. svc n p = Inr answer"
  then have "\<And>n. svc n p = Inr answer" by simp
  then show "retry_loop loads svc cn p 0 st =
                st\<lparr>failed_chunks := failed_chunks st @ [cn],
                   io := (io st)\<lparr>sent := sent (io st) @ [p, p, p]\<rparr>\<rparr>"
    using assms by (rule retry_loop_always_empty)
next
  assume a: "svc (length (sent (io st))) p = Inr answer
            \<and> svc (length (sent (io st)) + 1) p = Inr answer2
            \<and> parse_response loads answer2 = Inr c \<and> c \<noteq> []"
  show "retry_loop loads svc cn p 0 st =
                st\<lparr>all_categories := merge_categories (all_categories st) c,
                   io := (io st)\<lparr>sent := sent (io st) @ [p, p]\<rparr>\<rparr>"
    using a assms by (intro retry_loop_empty_then_good [where answer = answer and ?text2.0 = answer2]) simp_all
qed

theorem empty_map_is_failure_witness:
  "attempt_chunk loads_table svc_empty (Prompt []) io_init
     = (Inl EmptyResponse, io_init\<lparr>sent := [Prompt []]\<rparr>)
   \<and> retry_loop loads_table svc_empty 1 (Prompt []) 0 run_init =
       run_init\<lparr>failed_chunks := [1], io := io_init\<lparr>sent := [Prompt [], Prompt [], Prompt []]\<rparr>\<rparr>
   \<and> retry_loop loads_table svc_empty_then_A 1 (Prompt []) 0 run_init =
       run_init\<lparr>all_categories := [(''A'', [])], io := io_init\<lparr>sent := [Prompt [], Prompt []]\<rparr>\<rparr>"
  using empty_map_is_failure [where loads = loads_table and answer = "''{}''" and svc = svc_empty
      and p = "Prompt []" and ?s0.0 = io_init and cn = 1 and st = run_init, OF parse_empty_object]
    empty_map_is_failure [where loads = loads_table and answer = "''{}''"
      and svc = svc_empty_then_A and p = "Prompt []" and cn = 1 and st = run_init
      and ?answer2.0 = text_A_empty and c = "[(''A'', [])]", OF parse_empty_object]
    parse_A_empty
  by (simp add: svc_empty_def svc_empty_then_A_def io_init_def run_init_def
      merge_categories_def merge_category_def dict_contains_def dict_get_def)

text \<open>
  Claim C10.  The chunks of the aggregator are the consecutive slices of ten
  bookmarks: joined in order they give back the list, there are
  \<open>(length bookmarks + 9) div 10\<close> of them, none is empty, every one but the last has
  exactly ten bookmarks, and the prompts sent during a run are those of these chunks
  and no others.  The size is the constant \<^verbatim>\<open>CHUNK_SIZE\<close>; the function has no
  parameter for it.
\<close>

theorem bookmark_chunks_partition:
  "concat (bookmark_chunks bookmarks) = bookmarks
   \<and> length (bookmark_chunks bookmarks) = (length bookmarks + 9) div 10
   \<and> (\<forall>j. j < length (bookmark_chunks bookmarks) \<longrightarrow>
         bookmark_chunks bookmarks ! j = take 10 (drop (10 * j) bookmarks)
         \<and> 0 < length (bookmark_chunks bookmarks ! j)
         \<and> length (bookmark_chunks bookmarks ! j) \<le> 10
         \<and> (Suc j < length (bookmark_chunks bookmarks)
              \<longrightarrow> length (bookmark_chunks bookmarks ! j) = 10))
   \<and> set (sent (snd (categorize_bookmarks loads svc bookmarks st0)))
       = set (sent st0) \<union> chunk_prompt ` set (bookmark_chunks bookmarks)"
proof -
  have s: "set (sent (snd (categorize_bookmarks loads svc bookmarks st0)))
       = set (sent st0) \<union> chunk_prompt ` set (bookmark_chunks bookmarks)"
  proof (cases "bookmarks = []")
    case True
    then have "bookmark_chunks bookmarks = []"
      by (simp add: bookmark_chunks_def py_range_def CHUNK_SIZE_def)
    with True show ?thesis by (simp add: categorize_bookmarks_def)
  next
    case False
    then show ?thesis
      using run_chunks_outcomes(3) [of loads svc bookmarks st0]
      by (simp add: categorize_bookmarks_def Let_def)
  qed
  show ?thesis
    using bookmark_chunks_concat [of bookmarks] bookmark_chunks_length [of bookmarks]
      bookmark_chunks_nth [of _ bookmarks] s
    by blast
qed

lemma chunks11:
  "bookmark_chunks bookmarks11 =
     [replicate 10 [(''title'', JString ''t''), (''url'', JString ''u'')],
      [[(''title'', JString ''t''), (''url'', JString ''u'')]]]"
  by code_simp

theorem bookmark_chunks_partition_witness:
  "bookmark_chunks bookmarks11 =
     [replicate 10 [(''title'', JString ''t''), (''url'', JString ''u'')],
      [[(''title'', JString ''t''), (''url'', JString ''u'')]]]
   \<and> concat (bookmark_chunks bookmarks11) = bookmarks11
   \<and> length (bookmark_chunks bookmarks11 ! 0) = 10
   \<and> set (sent (snd (categorize_bookmarks loads_table svc_down bookmarks11 io_init)))
       = chunk_prompt ` set (bookmark_chunks bookmarks11)"
  using bookmark_chunks_partition [of bookmarks11 loads_table svc_down io_init] chunks11
  by (simp add: io_init_def)

end
